theory Spec2Isabelle
  imports Complex_Main "HOL-Library.Word" "HOL-Library.Sublist"
begin

section \<open>JavaScript numbers\<close>

text \<open>
  The vectors of \<^verbatim>\<open>corr.ts\<close> hold JavaScript numbers, the doubles of IEEE 754. A
  finite number is modelled by its real value, and every arithmetic result is rounded to
  the nearest double, ties to the even significand, with overflow to an infinity and
  gradual underflow. The special values follow the rules of the language: \<open>NaN\<close>
  absorbs, \<open>0 / 0\<close> and \<open>Infinity - Infinity\<close> and \<open>0 * Infinity\<close> are \<open>NaN\<close>, a
  non-zero number divided by zero is an infinity. The sign of zero is not part of this
  model.
\<close>

datatype jsnum = Num real | PInf | NInf | NaN

definition inf_of_sign :: "bool \<Rightarrow> jsnum" where
  "inf_of_sign positive = (if positive then PInf else NInf)"

text \<open>Rounding to the nearest integer, a tie to the even one.\<close>

definition round_half_even :: "real \<Rightarrow> int" where
  "round_half_even q =
     (let f = \<lfloor>q\<rfloor>; d = q - of_int f
      in if d < 1 / 2 then f else if 1 / 2 < d then f + 1 else if even f then f else f + 1)"

text \<open>
  The format: 53 bits of significand, the smallest normal number \<open>2 ^ - 1022\<close>, and
  \<open>2 ^ 1024\<close>, which no finite double reaches. The unit roundoff is half the gap
  between 1 and the next double.
\<close>

definition min_normal :: real where
  "min_normal = 2 powr (- 1022)"

definition overflow_threshold :: real where
  "overflow_threshold = 2 powr 1024"

definition unit_roundoff :: real where
  "unit_roundoff = 1 / 2 ^ 53"

text \<open>
  The gap between the doubles around \<open>x\<close>: \<open>2 ^ (e - 52)\<close> where \<open>2 ^ e\<close> is the power
  of two at or below \<open>\<bar>x\<bar>\<close>, and the gap of the subnormal numbers below \<open>min_normal\<close>.
\<close>

definition ulp_of :: "real \<Rightarrow> real" where
  "ulp_of x = 2 powr of_int (max \<lfloor>log 2 \<bar>x\<bar>\<rfloor> (- 1022) - 52)"

text \<open>
  The double that an operation returns for the exact result \<open>x\<close>: the multiple of the
  gap nearest to \<open>x\<close>, or an infinity when that multiple is out of range.
\<close>

definition fl :: "real \<Rightarrow> jsnum" where
  "fl x =
     (if x = 0 then Num 0
      else
        let r = of_int (round_half_even (x / ulp_of x)) * ulp_of x
        in if overflow_threshold \<le> \<bar>r\<bar> then inf_of_sign (0 < x) else Num r)"

fun jadd :: "jsnum \<Rightarrow> jsnum \<Rightarrow> jsnum" where
  "jadd NaN y = NaN"
| "jadd x NaN = NaN"
| "jadd (Num x) (Num y) = fl (x + y)"
| "jadd PInf NInf = NaN"
| "jadd NInf PInf = NaN"
| "jadd PInf y = PInf"
| "jadd x PInf = PInf"
| "jadd NInf y = NInf"
| "jadd x NInf = NInf"

fun jmul :: "jsnum \<Rightarrow> jsnum \<Rightarrow> jsnum" where
  "jmul NaN y = NaN"
| "jmul x NaN = NaN"
| "jmul (Num x) (Num y) = fl (x * y)"
| "jmul PInf (Num y) = (if y = 0 then NaN else inf_of_sign (0 < y))"
| "jmul NInf (Num y) = (if y = 0 then NaN else inf_of_sign (y < 0))"
| "jmul (Num x) PInf = (if x = 0 then NaN else inf_of_sign (0 < x))"
| "jmul (Num x) NInf = (if x = 0 then NaN else inf_of_sign (x < 0))"
| "jmul PInf PInf = PInf"
| "jmul PInf NInf = NInf"
| "jmul NInf PInf = NInf"
| "jmul NInf NInf = PInf"

text \<open>
  Division. The only division of the program has a product of two square roots as its
  denominator, which is never the negative zero, so a zero denominator is read as \<open>+0\<close>.
\<close>

fun jdiv :: "jsnum \<Rightarrow> jsnum \<Rightarrow> jsnum" where
  "jdiv NaN y = NaN"
| "jdiv x NaN = NaN"
| "jdiv (Num x) (Num y) =
     (if y \<noteq> 0 then fl (x / y)
      else if x = 0 then NaN
      else inf_of_sign (0 < x))"
| "jdiv (Num x) PInf = Num 0"
| "jdiv (Num x) NInf = Num 0"
| "jdiv PInf (Num y) = inf_of_sign (0 \<le> y)"
| "jdiv NInf (Num y) = inf_of_sign (y < 0)"
| "jdiv PInf PInf = NaN"
| "jdiv PInf NInf = NaN"
| "jdiv NInf PInf = NaN"
| "jdiv NInf NInf = NaN"

fun jsqrt :: "jsnum \<Rightarrow> jsnum" where
  "jsqrt NaN = NaN"
| "jsqrt (Num x) = (if x < 0 then NaN else fl (sqrt x))"
| "jsqrt PInf = PInf"
| "jsqrt NInf = NaN"

text \<open>The comparison \<^verbatim>\<open>==\<close> on numbers: \<open>NaN\<close> is equal to nothing, itself included.\<close>

definition js_eq :: "jsnum \<Rightarrow> jsnum \<Rightarrow> bool" where
  "js_eq x y = (x \<noteq> NaN \<and> y \<noteq> NaN \<and> x = y)"

text \<open>A finite number within \<open>tol\<close> of 1.\<close>

fun near_one :: "real \<Rightarrow> jsnum \<Rightarrow> bool" where
  "near_one tol (Num x) = (\<bar>x - 1\<bar> \<le> tol)"
| "near_one tol PInf = False"
| "near_one tol NInf = False"
| "near_one tol NaN = False"

section \<open>Arrays\<close>

text \<open>
  \<^verbatim>\<open>arr.reduce(f, init)\<close> calls \<^verbatim>\<open>f(acc, value, index)\<close> from left to right.
\<close>

fun reduce_from :: "('b \<Rightarrow> 'a \<Rightarrow> nat \<Rightarrow> 'b) \<Rightarrow> 'b \<Rightarrow> nat \<Rightarrow> 'a list \<Rightarrow> 'b" where
  "reduce_from f acc i [] = acc"
| "reduce_from f acc i (x # xs) = reduce_from f (f acc x i) (Suc i) xs"

definition reduce :: "('b \<Rightarrow> 'a \<Rightarrow> nat \<Rightarrow> 'b) \<Rightarrow> 'b \<Rightarrow> 'a list \<Rightarrow> 'b" where
  "reduce f init xs = reduce_from f init 0 xs"

text \<open>
  \<^verbatim>\<open>b[i]\<close> used as a factor: out of range the read yields \<^verbatim>\<open>undefined\<close>, which the
  multiplication converts to \<open>NaN\<close>.
\<close>

definition num_at :: "jsnum list \<Rightarrow> nat \<Rightarrow> jsnum" where
  "num_at b i = (if i < length b then b ! i else NaN)"

section \<open>Similarity (corr.ts, lines 19 to 36)\<close>

definition dotProduct :: "jsnum list \<Rightarrow> jsnum list \<Rightarrow> jsnum" where
  "dotProduct a b = reduce (\<lambda>sum val i. jadd sum (jmul val (num_at b i))) (Num 0) a"

definition sumOfSquares :: "jsnum list \<Rightarrow> jsnum" where
  "sumOfSquares a = reduce (\<lambda>sum val i. jadd sum (jmul val val)) (Num 0) a"

definition cosineSimilarity :: "jsnum list \<Rightarrow> jsnum list \<Rightarrow> jsnum" where
  "cosineSimilarity a b =
     (let normA = jsqrt (sumOfSquares a);
          normB = jsqrt (sumOfSquares b)
      in jdiv (dotProduct a b) (jmul normA normB))"

text \<open>
  The \<^verbatim>\<open>Matrix\<close> of the library \<^verbatim>\<open>ml-matrix\<close>: \<^verbatim>\<open>new Matrix(r, c)\<close> is an \<open>r\<close> by
  \<open>c\<close> grid of zeros (which may have no row or no column), \<^verbatim>\<open>set\<close> overwrites one
  cell, \<^verbatim>\<open>to2DArray\<close> copies the rows out. The loops below only write cells that exist.
\<close>

type_synonym matrix = "jsnum list list"

definition Matrix_new :: "nat \<Rightarrow> nat \<Rightarrow> matrix" where
  "Matrix_new rows cols = replicate rows (replicate cols (Num 0))"

definition Matrix_set :: "matrix \<Rightarrow> nat \<Rightarrow> nat \<Rightarrow> jsnum \<Rightarrow> matrix" where
  "Matrix_set m i j v = m[i := (m ! i)[j := v]]"

definition to2DArray :: "matrix \<Rightarrow> jsnum list list" where
  "to2DArray m = m"

text \<open>The two \<^verbatim>\<open>for\<close> loops, the inner one over \<open>j\<close> and the outer one over \<open>i\<close>.\<close>

function column_loop :: "jsnum list list \<Rightarrow> jsnum list list \<Rightarrow> nat \<Rightarrow> nat \<Rightarrow> matrix \<Rightarrow> matrix" where
  "column_loop e1 e2 i j m =
     (if j < length e2
      then column_loop e1 e2 i (Suc j) (Matrix_set m i j (cosineSimilarity (e1 ! i) (e2 ! j)))
      else m)"
  by pat_completeness auto
termination
  by (relation "measure (\<lambda>(e1, e2, i, j, m). length e2 - j)") auto

function row_loop :: "jsnum list list \<Rightarrow> jsnum list list \<Rightarrow> nat \<Rightarrow> matrix \<Rightarrow> matrix" where
  "row_loop e1 e2 i m =
     (if i < length e1
      then row_loop e1 e2 (Suc i) (column_loop e1 e2 i 0 m)
      else m)"
  by pat_completeness auto
termination
  by (relation "measure (\<lambda>(e1, e2, i, m). length e1 - i)") auto

definition computeCorrelationMatrix :: "jsnum list list \<Rightarrow> jsnum list list \<Rightarrow> jsnum list list" where
  "computeCorrelationMatrix embeddings1 embeddings2 =
     to2DArray (row_loop embeddings1 embeddings2 0
       (Matrix_new (length embeddings1) (length embeddings2)))"

text \<open>
  The reading of the dot product that sums over the indices of the shorter vector: the
  pairs of \<open>zip\<close> stop where the shorter list ends.
\<close>

definition dot_over_shorter :: "jsnum list \<Rightarrow> jsnum list \<Rightarrow> jsnum" where
  "dot_over_shorter a b = foldl jadd (Num 0) (map2 jmul a b)"

text \<open>
  A vector whose computed sum of squares is a finite number between \<open>2 ^ - 1020\<close> and
  \<open>2 ^ 1021\<close>: far enough from the ends of the range of the doubles for its norm and
  the square of its norm neither to overflow nor to lose precision to underflow.
\<close>

definition moderate_vector :: "jsnum list \<Rightarrow> bool" where
  "moderate_vector a =
     (case sumOfSquares a of
        Num s \<Rightarrow> 4 * min_normal \<le> s \<and> 8 * s \<le> overflow_threshold
      | PInf \<Rightarrow> False
      | NInf \<Rightarrow> False
      | NaN \<Rightarrow> False)"

text \<open>Two doubles for the examples, one whose square overflows and one whose square underflows.\<close>

definition huge :: real where
  "huge = 2 powr 600"

definition tiny :: real where
  "tiny = 2 powr (- 600)"

section \<open>Strings\<close>

text \<open>
  A JavaScript string is a sequence of 16-bit code units: \<^verbatim>\<open>length\<close> counts them and
  \<^verbatim>\<open>slice\<close> cuts between them. \<open>ascii\<close> embeds the ASCII literals of the source.
\<close>

type_synonym jschar = "16 word"
type_synonym jsstring = "jschar list"

definition ascii :: "string \<Rightarrow> jsstring" where
  "ascii s = map of_char s"

definition startsWith :: "jsstring \<Rightarrow> jsstring \<Rightarrow> bool" where
  "startsWith str search = (take (length search) str = search)"

definition endsWith :: "jsstring \<Rightarrow> jsstring \<Rightarrow> bool" where
  "endsWith str search =
     (length search \<le> length str \<and> drop (length str - length search) str = search)"

text \<open>
  \<^verbatim>\<open>trim\<close> removes the white space and line terminators of the language from both
  ends: tab, line feed, vertical tab, form feed, carriage return, space, no-break space,
  the Unicode space separators, the line and paragraph separators and the byte order
  mark.
\<close>

definition is_whitespace :: "jschar \<Rightarrow> bool" where
  "is_whitespace c =
     (c \<in> set [0x0009, 0x000A, 0x000B, 0x000C, 0x000D, 0x0020, 0x00A0, 0x1680,
                0x2000, 0x2001, 0x2002, 0x2003, 0x2004, 0x2005, 0x2006, 0x2007,
                0x2008, 0x2009, 0x200A, 0x2028, 0x2029, 0x202F, 0x205F, 0x3000, 0xFEFF])"

definition trim :: "jsstring \<Rightarrow> jsstring" where
  "trim s = rev (dropWhile is_whitespace (rev (dropWhile is_whitespace s)))"

text \<open>
  \<^verbatim>\<open>text.slice(0, end)\<close> for an integer \<open>end\<close>: a negative end counts from the end of
  the string, and both bounds are clamped to the string.
\<close>

definition slice_from_start :: "jsstring \<Rightarrow> int \<Rightarrow> jsstring" where
  "slice_from_start s e =
     (let len = int (length s);
          to = (if e < 0 then max (len + e) 0 else min e len)
      in take (nat to) s)"

section \<open>The URL reader (reader.ts)\<close>

text \<open>
  A thrown \<^verbatim>\<open>Error\<close> carries its message. \<open>ClientError\<close> is whatever the HTTP client
  rejects with (transport failure, timeout, non-success status).
\<close>

datatype 'e failure = JsError string | ClientError 'e

record request =
  endpoint :: jsstring
  body_url :: jsstring
  headers :: "(jsstring \<times> jsstring) list"
  timeout :: nat

text \<open>
  Modelled from the spec: the type \<^verbatim>\<open>ReadResponse\<close> of \<^verbatim>\<open>types.ts\<close>, an envelope
  whose \<open>data\<close> field holds the payload or is missing.
\<close>

record 'd ReadResponse =
  data :: "'d option"

datatype ('d, 'e) console_entry = LogRead 'd | LogError "'e failure"

text \<open>The observable effects of a call: the requests sent and the lines logged.\<close>

record ('d, 'e) world =
  sent :: "request list"
  console :: "('d, 'e) console_entry list"

text \<open>
  \<open>readUrl\<close>, with the HTTP client's \<^verbatim>\<open>post\<close> and the configured API key as
  parameters. A rejected promise is the \<open>Inl\<close> result.
\<close>

definition readUrl ::
  "(request \<Rightarrow> 'e + 'd ReadResponse) \<Rightarrow> jsstring \<Rightarrow> jsstring \<Rightarrow> bool \<Rightarrow> ('d, 'e) world
     \<Rightarrow> ('e failure + 'd ReadResponse) \<times> ('d, 'e) world" where
  "readUrl post JINA_API_KEY url withAllLinks w =
     (if trim url = [] then (Inl (JsError ''URL cannot be empty''), w)
      else if \<not> startsWith url (ascii ''http://'') \<and> \<not> startsWith url (ascii ''https://'')
      then (Inl (JsError ''Invalid URL, only http and https URLs are supported''), w)
      else
        let hs = [(ascii ''Accept'', ascii ''application/json''),
                  (ascii ''Authorization'', ascii ''Bearer '' @ JINA_API_KEY),
                  (ascii ''Content-Type'', ascii ''application/json''),
                  (ascii ''X-Retain-Images'', ascii ''none''),
                  (ascii ''X-Md-Link-Style'', ascii ''discarded'')];
            hs' = (if withAllLinks then hs @ [(ascii ''X-With-Links-Summary'', ascii ''all'')]
                   else hs);
            req = \<lparr>endpoint = ascii ''https://r.jina.ai/'', body_url = url, headers = hs',
                   timeout = 60000\<rparr>;
            w1 = w\<lparr>sent := sent w @ [req]\<rparr>
        in case post req of
             Inl e \<Rightarrow> (Inl (ClientError e), w1\<lparr>console := console w1 @ [LogError (ClientError e)]\<rparr>)
           | Inr response \<Rightarrow>
               (case data response of
                  None \<Rightarrow>
                    (Inl (JsError ''Invalid response data''),
                     w1\<lparr>console := console w1 @ [LogError (JsError ''Invalid response data'')]\<rparr>)
                | Some d \<Rightarrow> (Inr response, w1\<lparr>console := console w1 @ [LogRead d]\<rparr>)))"

text \<open>
  Modelled from the spec: the error kind \<open>InvalidInput\<close> (empty or malformed URL). The
  source throws plain errors; the two messages of the validation are this kind.
\<close>

definition is_InvalidInput :: "'e failure \<Rightarrow> bool" where
  "is_InvalidInput e =
     (e = JsError ''URL cannot be empty''
      \<or> e = JsError ''Invalid URL, only http and https URLs are supported'')"

section \<open>Labels (corr.ts, lines 38 to 47 and 85 to 90)\<close>

definition isImagePath :: "jsstring \<Rightarrow> bool" where
  "isImagePath str =
     (startsWith str (ascii ''data:image/'') \<or>
      startsWith str (ascii ''http://'') \<or>
      startsWith str (ascii ''https://'') \<or>
      endsWith str (ascii ''.jpg'') \<or>
      endsWith str (ascii ''.jpeg'') \<or>
      endsWith str (ascii ''.png'') \<or>
      endsWith str (ascii ''.gif'') \<or>
      endsWith str (ascii ''.webp''))"

text \<open>
  The two literals of \<open>truncateLabel\<close>: the framed-picture emoji with its variation
  selector (U+1F5BC as a surrogate pair, then U+FE0F) and the horizontal ellipsis U+2026.
\<close>

definition image_glyph :: jsstring where
  "image_glyph = [0xD83D, 0xDDBC, 0xFE0F]"

definition ellipsis :: jsstring where
  "ellipsis = [0x2026]"

definition truncateLabel :: "jsstring \<Rightarrow> int \<Rightarrow> jsstring" where
  "truncateLabel text maxLen =
     (if isImagePath text then image_glyph
      else if int (length text) > maxLen then slice_from_start text maxLen @ ellipsis
      else text)"

text \<open>The call with the parameter left out takes the default 32.\<close>

definition truncateLabel_default :: "jsstring \<Rightarrow> jsstring" where
  "truncateLabel_default text = truncateLabel text 32"

text \<open>
  The classification in the words of the specification: the text starts with
  \<^verbatim>\<open>data:image/\<close>, \<^verbatim>\<open>http://\<close> or \<^verbatim>\<open>https://\<close>, or ends, in this very case, with one of
  five extensions.
\<close>

definition is_image_reference :: "jsstring \<Rightarrow> bool" where
  "is_image_reference text =
     (list_ex (\<lambda>p. prefix (ascii p) text) [''data:image/'', ''http://'', ''https://'']
      \<or> list_ex (\<lambda>e. suffix (ascii e) text) [''.jpg'', ''.jpeg'', ''.png'', ''.gif'', ''.webp''])"

section \<open>Ingestion (corr.ts, lines 49 to 83)\<close>

type_synonym bytes = "8 word list"

text \<open>
  Modelled from the spec: the type \<^verbatim>\<open>EmbeddingOutput\<close> of \<^verbatim>\<open>types.ts\<close>, one record of
  an input file with its embedding vector and its chunk.
\<close>

record EmbeddingOutput =
  embedding :: "jsnum list"
  chunk :: jsstring

text \<open>A line of an input file parses to a record or fails to parse.\<close>

datatype line = Row EmbeddingOutput | Malformed

text \<open>
  What the program asks of Node: the functions of \<^verbatim>\<open>path\<close>, the lower-casing of
  strings, the base64 encoder of buffers, and the file system. \<open>readFileSync\<close> is
  \<open>None\<close> where the read throws; \<open>file_lines\<close> is \<open>None\<close> where the input file cannot
  be opened.
\<close>

record host =
  path_resolve :: "jsstring \<Rightarrow> jsstring \<Rightarrow> jsstring"
  path_extname :: "jsstring \<Rightarrow> jsstring"
  path_dirname :: "jsstring \<Rightarrow> jsstring"
  toLowerCase :: "jsstring \<Rightarrow> jsstring"
  toBase64 :: "bytes \<Rightarrow> jsstring"
  existsSync :: "jsstring \<Rightarrow> bool"
  readFileSync :: "jsstring \<Rightarrow> bytes option"
  file_lines :: "jsstring \<Rightarrow> line list option"

datatype load_error = OpenFailed jsstring | ParseFailed | ReadFailed jsstring

definition resolveImagePath :: "host \<Rightarrow> jsstring \<Rightarrow> jsstring \<Rightarrow> load_error + jsstring" where
  "resolveImagePath h filePath baseDir =
     (if startsWith filePath (ascii ''data:image/'') \<or> startsWith filePath (ascii ''http://'')
         \<or> startsWith filePath (ascii ''https://'')
      then Inr filePath
      else
        let fullPath = path_resolve h baseDir filePath in
        if existsSync h fullPath
        then
          let mimeType = (if toLowerCase h (path_extname h fullPath) = ascii ''.png''
                          then ascii ''image/png'' else ascii ''image/jpeg'')
          in case readFileSync h fullPath of
               None \<Rightarrow> Inl (ReadFailed fullPath)
             | Some imageBuffer \<Rightarrow>
                 Inr (ascii ''data:'' @ mimeType @ ascii '';base64,'' @ toBase64 h imageBuffer)
        else Inr filePath)"

text \<open>The chunk that the \<^verbatim>\<open>data\<close> handler pushes (line 77).\<close>

definition resolved_chunk :: "host \<Rightarrow> jsstring \<Rightarrow> jsstring \<Rightarrow> load_error + jsstring" where
  "resolved_chunk h baseDir c = (if isImagePath c then resolveImagePath h c baseDir else Inr c)"

record loaded =
  embeddings :: "jsnum list list"
  chunks :: "jsstring list"

text \<open>A promise settles once: later calls of \<^verbatim>\<open>resolve\<close> and \<^verbatim>\<open>reject\<close> change nothing.\<close>

datatype promise = Pending | Fulfilled | Rejected load_error

definition settle :: "promise \<Rightarrow> promise \<Rightarrow> promise" where
  "settle p new = (if p = Pending then new else p)"

text \<open>
  The state of one call: the two arrays, the promise, the exception that has escaped
  from the file stream, if one has, and whether the parser has stopped handing over
  records.
\<close>

record load_state = loaded +
  promise :: promise
  thrown :: "load_error option"
  stopped :: bool

text \<open>
  The events of the two streams of line 72 and 73. \<open>Data\<close>, \<open>ErrorEvent\<close> and \<open>End\<close>
  are events of the parser, the stream that \<^verbatim>\<open>pipe\<close> returns and on which the three
  handlers are registered. \<open>FileStreamError\<close> is an error event of the file stream.
\<close>

datatype event = Data EmbeddingOutput | ErrorEvent load_error | End | FileStreamError load_error

text \<open>
  The three handlers. In the \<^verbatim>\<open>data\<close> handler the embedding is pushed before the chunk
  is resolved, so it stays pushed when the resolution throws. The parser hands its
  records over inside a \<^verbatim>\<open>try\<close>: it catches what the \<^verbatim>\<open>data\<close> handler throws, gives
  up the lines it still holds and emits the error as its own, which calls \<^verbatim>\<open>reject\<close>;
  the file stream feeds a parser that has emitted an error no further, so that no event
  follows.
  The file stream has no handler here: \<^verbatim>\<open>pipe\<close> hands data on, not errors, and an
  emitter throws an error event that nobody listens to.
\<close>

fun on_event :: "host \<Rightarrow> jsstring \<Rightarrow> load_state \<Rightarrow> event \<Rightarrow> load_state" where
  "on_event h baseDir st (Data obj) =
     (let st1 = st\<lparr>embeddings := embeddings st @ [embedding obj]\<rparr>
      in case resolved_chunk h baseDir (chunk obj) of
           Inl e \<Rightarrow> st1\<lparr>promise := settle (promise st1) (Rejected e), stopped := True\<rparr>
         | Inr c \<Rightarrow> st1\<lparr>chunks := chunks st1 @ [c]\<rparr>)"
| "on_event h baseDir st End = st\<lparr>promise := settle (promise st) Fulfilled\<rparr>"
| "on_event h baseDir st (ErrorEvent e) = st\<lparr>promise := settle (promise st) (Rejected e)\<rparr>"
| "on_event h baseDir st (FileStreamError e) = st\<lparr>thrown := Some e\<rparr>"

text \<open>
  The events, one after the other, until an exception escapes or the parser has
  stopped.
\<close>

fun deliver :: "host \<Rightarrow> jsstring \<Rightarrow> load_state \<Rightarrow> event list \<Rightarrow> load_state" where
  "deliver h baseDir st [] = st"
| "deliver h baseDir st (ev # evs) =
     (if thrown st \<noteq> None \<or> stopped st then st
      else deliver h baseDir (on_event h baseDir st ev) evs)"

text \<open>
  The streams \<^verbatim>\<open>fs.createReadStream(filePath).pipe(ndjson.parse())\<close> of the libraries.
  When the file cannot be opened the file stream emits its error. Otherwise the parser
  hands over the lines in file order, a record for a line that parses and an error for
  a line that does not, and then ends. Lines are records or text that the parser
  rejects; blank lines and lines that parse to something other than a record are left
  out of this model. The error of a line that does not parse calls \<^verbatim>\<open>reject\<close>; the
  events listed after it find the promise settled and change nothing of how the call
  ends.
\<close>

fun line_event :: "line \<Rightarrow> event" where
  "line_event (Row obj) = Data obj"
| "line_event Malformed = ErrorEvent ParseFailed"

definition stream_events :: "jsstring \<Rightarrow> line list option \<Rightarrow> event list" where
  "stream_events filePath content =
     (case content of
        None \<Rightarrow> [FileStreamError (OpenFailed filePath)]
      | Some ls \<Rightarrow> map line_event ls @ [End])"

text \<open>
  How a call of \<open>loadEmbeddings\<close> ends for its caller: \<open>Returned\<close> with the two arrays
  when the promise is fulfilled, \<open>Failed\<close> with the error when it is rejected, \<open>Threw\<close>
  when the error of the file stream has escaped (the promise is not settled then and
  the caller receives nothing), and \<open>Unsettled\<close> when the promise is never settled.
\<close>

datatype outcome = Returned loaded | Failed load_error | Threw load_error | Unsettled

definition outcome_of :: "load_state \<Rightarrow> outcome" where
  "outcome_of st =
     (case thrown st of
        Some e \<Rightarrow> Threw e
      | None \<Rightarrow>
          (case promise st of
             Pending \<Rightarrow> Unsettled
           | Fulfilled \<Rightarrow> Returned \<lparr>embeddings = embeddings st, chunks = chunks st\<rparr>
           | Rejected e \<Rightarrow> Failed e))"

definition loadEmbeddings :: "host \<Rightarrow> jsstring \<Rightarrow> jsstring \<Rightarrow> outcome" where
  "loadEmbeddings h filePath model =
     (let baseDir = path_dirname h filePath
      in outcome_of
           (deliver h baseDir
              \<lparr>embeddings = [], chunks = [], promise = Pending, thrown = None,
                stopped = False\<rparr>
              (stream_events filePath (file_lines h filePath))))"

text \<open>
  A chunk whose image is a local file that exists and cannot be read: the one case in
  which resolving a chunk throws.
\<close>

definition unreadable_asset :: "host \<Rightarrow> jsstring \<Rightarrow> jsstring \<Rightarrow> bool" where
  "unreadable_asset h baseDir c =
     (isImagePath c
      \<and> \<not> (startsWith c (ascii ''data:image/'') \<or> startsWith c (ascii ''http://'')
            \<or> startsWith c (ascii ''https://''))
      \<and> existsSync h (path_resolve h baseDir c)
      \<and> readFileSync h (path_resolve h baseDir c) = None)"

text \<open>A line that parses and whose chunk resolves without a throw.\<close>

fun sound_line :: "host \<Rightarrow> jsstring \<Rightarrow> line \<Rightarrow> bool" where
  "sound_line h baseDir (Row obj) = (\<not> unreadable_asset h baseDir (chunk obj))"
| "sound_line h baseDir Malformed = False"

text \<open>
  The error of the first line of a file that is not sound: the parser's error for a line
  that does not parse, the error of the read for an image that cannot be read.
\<close>

fun first_error :: "host \<Rightarrow> jsstring \<Rightarrow> line list \<Rightarrow> load_error option" where
  "first_error h baseDir [] = None"
| "first_error h baseDir (Malformed # ls) = Some ParseFailed"
| "first_error h baseDir (Row obj # ls) =
     (if unreadable_asset h baseDir (chunk obj)
      then Some (ReadFailed (path_resolve h baseDir (chunk obj)))
      else first_error h baseDir ls)"

text \<open>
  Modelled from the spec: the two error kinds of section 7 that concern ingestion,
  \<open>FileAccessFailure\<close> (missing or unreadable input file or image asset) and
  \<open>ParseFailure\<close> (malformed JSON line). The source has no kinds; these name its errors.
\<close>

datatype error_kind = FileAccessFailure | ParseFailure

fun kind_of :: "load_error \<Rightarrow> error_kind" where
  "kind_of (OpenFailed p) = FileAccessFailure"
| "kind_of (ReadFailed p) = FileAccessFailure"
| "kind_of ParseFailed = ParseFailure"

text \<open>
  A chunk that \<open>loadEmbeddings\<close> rewrites: an image reference that is neither a data
  URI nor an http(s) URL and whose file exists when the chunk is resolved against the
  directory of the input file.
\<close>

definition local_image :: "host \<Rightarrow> jsstring \<Rightarrow> jsstring \<Rightarrow> bool" where
  "local_image h baseDir c =
     (isImagePath c
      \<and> \<not> (startsWith c (ascii ''data:image/'') \<or> startsWith c (ascii ''http://'')
            \<or> startsWith c (ascii ''https://''))
      \<and> existsSync h (path_resolve h baseDir c))"

text \<open>
  A small host for the examples: the directory \<^verbatim>\<open>data\<close> holds the image
  \<^verbatim>\<open>cat.png\<close> of three bytes, the image \<^verbatim>\<open>locked.png\<close> that cannot be read, and five
  input files. Paths are joined with a slash, the directory of an input file is what
  precedes its last slash and the extension of a path starts at its last dot, as Node
  does on these paths; the strings are in lower case already, and the encoder knows the
  one buffer there is.
\<close>

definition sample_lines :: "jsstring \<Rightarrow> line list option" where
  "sample_lines p =
     (if p = ascii ''data/cat.jsonl''
      then Some [Row \<lparr>embedding = [Num 1, Num 0], chunk = ascii ''hello''\<rparr>,
                 Row \<lparr>embedding = [Num 0, Num 1], chunk = ascii ''cat.png''\<rparr>,
                 Row \<lparr>embedding = [Num 1, Num 1], chunk = ascii ''https://example.com/x.png''\<rparr>]
      else if p = ascii ''data/locked.jsonl''
      then Some [Row \<lparr>embedding = [Num 1], chunk = ascii ''locked.png''\<rparr>]
      else if p = ascii ''data/missing.jsonl''
      then Some [Row \<lparr>embedding = [Num 1], chunk = ascii ''missing.jpg''\<rparr>]
      else if p = ascii ''data/gone.jsonl''
      then Some [Row \<lparr>embedding = [Num 2], chunk = ascii ''gone.png''\<rparr>]
      else if p = ascii ''data/broken.jsonl''
      then Some [Row \<lparr>embedding = [Num 1], chunk = ascii ''hello''\<rparr>, Malformed]
      else None)"

definition sample_host :: host where
  "sample_host =
     \<lparr>path_resolve = (\<lambda>baseDir filePath. baseDir @ ascii ''/'' @ filePath),
      path_extname = (\<lambda>p. 0x2E # rev (takeWhile (\<lambda>c. c \<noteq> 0x2E) (rev p))),
      path_dirname = (\<lambda>p. rev (drop 1 (dropWhile (\<lambda>c. c \<noteq> 0x2F) (rev p)))),
      toLowerCase = (\<lambda>s. s),
      toBase64 = (\<lambda>b. if b = [1, 2, 3] then ascii ''AQID'' else []),
      existsSync = (\<lambda>p. p = ascii ''data/cat.png'' \<or> p = ascii ''data/locked.png''),
      readFileSync = (\<lambda>p. if p = ascii ''data/cat.png'' then Some [1, 2, 3] else None),
      file_lines = sample_lines\<rparr>"

section \<open>The similarity matrix\<close>

declare column_loop.simps [simp del] row_loop.simps [simp del]

text \<open>
  The inner loop, started at column \<open>j\<close> on a well-shaped matrix, overwrites the cells
  \<open>j, ..., length e2 - 1\<close> of row \<open>i\<close> and nothing else.
\<close>

lemma column_loop_spec:
  assumes "i < length m" and "length (m ! i) = length e2"
  shows "column_loop e1 e2 i j m =
           m[i := take j (m ! i) @ map (\<lambda>b. cosineSimilarity (e1 ! i) b) (drop j e2)]"
  using assms
proof (induction e1 e2 i j m rule: column_loop.induct)
  case (1 e1 e2 i j m)
  show ?case
  proof (cases "j < length e2")
    case True
    let ?m' = "Matrix_set m i j (cosineSimilarity (e1 ! i) (e2 ! j))"
    have row: "?m' ! i = (m ! i)[j := cosineSimilarity (e1 ! i) (e2 ! j)]"
      using "1.prems" by (simp add: Matrix_set_def)
    have len: "i < length ?m'" "length (?m' ! i) = length e2"
      using "1.prems" by (simp_all add: Matrix_set_def)
    have "column_loop e1 e2 i j m = column_loop e1 e2 i (Suc j) ?m'"
      using True by (simp add: column_loop.simps [of e1 e2 i j m])
    also have "\<dots> = ?m'[i := take (Suc j) (?m' ! i)
                       @ map (\<lambda>b. cosineSimilarity (e1 ! i) b) (drop (Suc j) e2)]"
      using "1.IH" [OF True len] .
    also have "\<dots> = m[i := take j (m ! i) @ map (\<lambda>b. cosineSimilarity (e1 ! i) b) (drop j e2)]"
    proof -
      have "take (Suc j) ((m ! i)[j := cosineSimilarity (e1 ! i) (e2 ! j)])
              = take j (m ! i) @ [cosineSimilarity (e1 ! i) (e2 ! j)]"
        using True "1.prems" by (simp add: take_Suc_conv_app_nth)
      moreover have "drop j e2 = e2 ! j # drop (Suc j) e2"
        using True by (simp add: Cons_nth_drop_Suc)
      ultimately show ?thesis
        using "1.prems" by (simp add: Matrix_set_def)
    qed
    finally show ?thesis .
  next
    case False
    then have "column_loop e1 e2 i j m = m"
      by (simp add: column_loop.simps [of e1 e2 i j m])
    moreover have "take j (m ! i) @ map (\<lambda>b. cosineSimilarity (e1 ! i) b) (drop j e2) = m ! i"
      using False "1.prems" by simp
    ultimately show ?thesis by simp
  qed
qed

lemma column_loop_row:
  assumes "i < length m" and "length (m ! i) = length e2"
  shows "column_loop e1 e2 i 0 m = m[i := map (\<lambda>b. cosineSimilarity (e1 ! i) b) e2]"
  using column_loop_spec [OF assms, of e1 0] by simp

text \<open>
  The outer loop, started at row \<open>i\<close>, replaces the rows \<open>i, ..., length e1 - 1\<close>.
\<close>

lemma row_loop_spec:
  assumes "length m = length e1" and "\<forall>r \<in> set m. length r = length e2"
  shows "row_loop e1 e2 i m =
           take i m @ map (\<lambda>a. map (\<lambda>b. cosineSimilarity a b) e2) (drop i e1)"
  using assms
proof (induction e1 e2 i m rule: row_loop.induct)
  case (1 e1 e2 i m)
  show ?case
  proof (cases "i < length e1")
    case True
    let ?row = "map (\<lambda>b. cosineSimilarity (e1 ! i) b) e2"
    let ?m' = "column_loop e1 e2 i 0 m"
    have im: "i < length m" using True "1.prems" by simp
    then have "length (m ! i) = length e2" using "1.prems" by simp
    then have m': "?m' = m[i := ?row]"
      using im by (rule column_loop_row [rotated])
    have shape: "length ?m' = length e1" "\<forall>r \<in> set ?m'. length r = length e2"
      using "1.prems" by (auto simp: m' dest!: set_update_subset_insert [THEN subsetD])
    have "row_loop e1 e2 i m = row_loop e1 e2 (Suc i) ?m'"
      using True by (simp add: row_loop.simps [of e1 e2 i m])
    also have "\<dots> = take (Suc i) ?m'
                       @ map (\<lambda>a. map (\<lambda>b. cosineSimilarity a b) e2) (drop (Suc i) e1)"
      using "1.IH" [OF True shape] .
    also have "\<dots> = take i m @ map (\<lambda>a. map (\<lambda>b. cosineSimilarity a b) e2) (drop i e1)"
    proof -
      have "take (Suc i) (m[i := ?row]) = take i m @ [?row]"
        using im by (simp add: take_Suc_conv_app_nth)
      moreover have "drop i e1 = e1 ! i # drop (Suc i) e1"
        using True by (simp add: Cons_nth_drop_Suc)
      ultimately show ?thesis by (simp add: m')
    qed
    finally show ?thesis .
  next
    case False
    then show ?thesis
      using "1.prems" by (simp add: row_loop.simps [of e1 e2 i m])
  qed
qed

lemma computeCorrelationMatrix_map:
  "computeCorrelationMatrix e1 e2 = map (\<lambda>a. map (\<lambda>b. cosineSimilarity a b) e2) e1"
proof -
  have "row_loop e1 e2 0 (Matrix_new (length e1) (length e2))
          = map (\<lambda>a. map (\<lambda>b. cosineSimilarity a b) e2) e1"
    using row_loop_spec [of "Matrix_new (length e1) (length e2)" e1 e2 0]
    by (simp add: Matrix_new_def)
  then show ?thesis
    by (simp add: computeCorrelationMatrix_def to2DArray_def)
qed

text \<open>
  Claim C1. For every pair of vector lists, \<open>computeCorrelationMatrix\<close> returns a matrix
  with one row per vector of the first list, every row as long as the second list, and
  the cell at row \<open>i\<close> and column \<open>j\<close> is the cosine similarity of the \<open>i\<close>-th vector of
  the first list and the \<open>j\<close>-th vector of the second, whatever the vectors hold; with
  an empty list the matrix has no row or only empty rows.
\<close>

theorem computeCorrelationMatrix_shape_cells:
  "length (computeCorrelationMatrix V1 V2) = length V1
   \<and> (\<forall>i < length V1. length (computeCorrelationMatrix V1 V2 ! i) = length V2
        \<and> (\<forall>j < length V2.
              computeCorrelationMatrix V1 V2 ! i ! j = cosineSimilarity (V1 ! i) (V2 ! j)))"
  by (simp add: computeCorrelationMatrix_map)

theorem computeCorrelationMatrix_shape_cells_witness:
  "length (computeCorrelationMatrix [[Num 1, Num 0]] [[Num 0, Num 1], [Num 1, Num 0]]) = 1
   \<and> length (computeCorrelationMatrix [[Num 1, Num 0]] [[Num 0, Num 1], [Num 1, Num 0]] ! 0) = 2
   \<and> computeCorrelationMatrix [[Num 1, Num 0]] [[Num 0, Num 1], [Num 1, Num 0]] ! 0 ! 1
       = cosineSimilarity [Num 1, Num 0] [Num 1, Num 0]"
  using computeCorrelationMatrix_shape_cells [of "[[Num 1, Num 0]]" "[[Num 0, Num 1], [Num 1, Num 0]]"]
  by simp

section \<open>Rounding to doubles\<close>

lemma round_half_even_close: "\<bar>of_int (round_half_even q) - q\<bar> \<le> 1 / 2"
proof -
  have "of_int \<lfloor>q\<rfloor> \<le> q" and "q < of_int \<lfloor>q\<rfloor> + 1"
    by linarith+
  then show ?thesis
    by (auto simp: round_half_even_def Let_def abs_le_iff)
qed

lemma round_half_even_of_int [simp]: "round_half_even (of_int k) = k"
  by (simp add: round_half_even_def)

lemma ulp_of_pos: "0 < ulp_of x"
  by (simp add: ulp_of_def)

lemma fl_not_NaN [simp]: "fl x \<noteq> NaN"
  by (simp add: fl_def Let_def inf_of_sign_def)

lemma fl_zero [simp]: "fl 0 = Num 0"
  by (simp add: fl_def)

lemma fl_exact:
  assumes "x \<noteq> 0" and "x / ulp_of x = of_int k"
  shows "fl x = (if overflow_threshold \<le> \<bar>x\<bar> then inf_of_sign (0 < x) else Num x)"
proof -
  have "x = of_int k * ulp_of x"
    using assms(2) ulp_of_pos [of x] by (simp add: field_simps)
  then have "of_int (round_half_even (x / ulp_of x)) * ulp_of x = x"
    by (simp add: assms(2))
  then show ?thesis
    using assms(1) by (simp add: fl_def Let_def)
qed

lemma floor_log2_bounds:
  assumes "0 < a"
  shows "2 powr of_int \<lfloor>log 2 a\<rfloor> \<le> a" and "a < 2 powr of_int (\<lfloor>log 2 a\<rfloor> + 1)"
  using floor_log_eq_powr_iff [of a 2 "\<lfloor>log 2 a\<rfloor>"] assms by simp_all

lemma overflow_threshold_ge: "2 ^ 53 \<le> overflow_threshold"
proof -
  have "(2::real) powr 53 \<le> 2 powr 1024"
    by (rule powr_mono) simp_all
  then show ?thesis
    by (simp add: overflow_threshold_def del: powr_numeral)
qed

lemma fl_of_int:
  assumes "\<bar>n\<bar> < 2 ^ 53"
  shows "fl (of_int n) = Num (of_int n)"
proof (cases "n = 0")
  case True
  then show ?thesis by simp
next
  case False
  define a :: real where "a = of_int \<bar>n\<bar>"
  define e where "e = \<lfloor>log 2 a\<rfloor>"
  have "1 \<le> \<bar>n\<bar>" using False by linarith
  then have a1: "1 \<le> a" unfolding a_def by linarith
  have a53: "a < 2 ^ 53"
  proof -
    have "real_of_int \<bar>n\<bar> < real_of_int (2 ^ 53)"
      using assms by (simp only: of_int_less_iff)
    then show ?thesis by (simp add: a_def)
  qed
  have a_abs: "\<bar>real_of_int n\<bar> = a" by (simp add: a_def)
  have "0 \<le> log 2 a" using a1 by simp
  then have e0: "0 \<le> e" by (simp add: e_def)
  have "log 2 a < log 2 (2 ^ 53)" using a1 a53 by (subst log_less_cancel_iff) simp_all
  moreover have "log 2 ((2::real) ^ 53) = real 53" by (rule log_pow_cancel) simp_all
  ultimately have "log 2 a < 53" by simp
  then have e52: "e \<le> 52" unfolding e_def by linarith
  have ulp: "ulp_of (of_int n) = 2 powr of_int (e - 52)"
    using e0 by (simp add: ulp_of_def e_def a_abs max_def)
  have "(2::real) ^ nat (52 - e) = 2 powr real (nat (52 - e))"
    by (simp add: powr_realpow)
  also have "real (nat (52 - e)) = real_of_int (52 - e)"
    using e52 by simp
  finally have p: "(2::real) ^ nat (52 - e) = 2 powr real_of_int (52 - e)" .
  have "(2::real) powr real_of_int (e - 52) * 2 powr real_of_int (52 - e) = 2 powr 0"
    unfolding powr_add [symmetric] by simp
  then have "ulp_of (of_int n) * 2 ^ nat (52 - e) = 1"
    by (simp add: ulp p)
  then have "1 / ulp_of (of_int n) = 2 ^ nat (52 - e)"
    using ulp_of_pos [of "of_int n"] by (simp add: field_simps)
  then have "real_of_int n / ulp_of (of_int n) = real_of_int n * 2 ^ nat (52 - e)"
    by (metis divide_inverse inverse_eq_divide)
  then have q: "real_of_int n / ulp_of (of_int n) = of_int (n * 2 ^ nat (52 - e))"
    by simp
  have "real_of_int n \<noteq> 0"
    using False by simp
  then have "fl (of_int n) = (if overflow_threshold \<le> \<bar>real_of_int n\<bar>
      then inf_of_sign (0 < real_of_int n) else Num (of_int n))"
    using q by (rule fl_exact)
  moreover have "a < overflow_threshold"
    using a53 overflow_threshold_ge by linarith
  ultimately show ?thesis by (simp add: a_abs)
qed

lemma fl_numeral [simp]: "numeral k < (2::int) ^ 53 \<Longrightarrow> fl (numeral k) = Num (numeral k)"
  using fl_of_int [of "numeral k"] by simp

lemma fl_one [simp]: "fl 1 = Num 1"
  using fl_of_int [of 1] by simp

lemma fl_normal:
  assumes lo: "min_normal \<le> \<bar>x\<bar>" and hi: "2 * \<bar>x\<bar> \<le> overflow_threshold"
  shows "\<exists>r. fl x = Num r \<and> \<bar>r - x\<bar> \<le> \<bar>x\<bar> * unit_roundoff"
proof -
  define a where "a = \<bar>x\<bar>"
  define e where "e = \<lfloor>log 2 a\<rfloor>"
  have "0 < min_normal" by (simp add: min_normal_def)
  then have apos: "0 < a"
    using lo unfolding a_def by linarith
  then have x0: "x \<noteq> 0" by (auto simp: a_def)
  have "log 2 (2 powr (- 1022)) \<le> log 2 a"
    using lo apos unfolding a_def min_normal_def by (subst log_le_cancel_iff) simp_all
  moreover have "log 2 (2 powr (- 1022)) = - 1022"
    by (rule log_powr_cancel) simp_all
  ultimately have "- 1022 \<le> log 2 a" by (simp only:)
  then have elo: "- 1022 \<le> e" unfolding e_def by linarith
  define u where "u = ulp_of x"
  have "max e (- 1022) = e"
    using elo by simp
  then have u: "u = 2 powr of_int (e - 52)"
    unfolding u_def ulp_of_def a_def [symmetric] e_def [symmetric] by simp
  have upos: "0 < u" by (simp add: u)
  have "2 powr of_int e \<le> a"
    unfolding e_def using apos by (rule floor_log2_bounds)
  moreover have "(2::real) powr of_int (e - 52) = 2 powr of_int e / 2 ^ 52"
    by (simp add: powr_diff)
  ultimately have ua: "u \<le> a / 2 ^ 52"
    by (simp add: u divide_right_mono)
  define k where "k = round_half_even (x / u)"
  define r where "r = of_int k * u"
  have "r - x = (of_int k - x / u) * u"
    using upos by (simp add: r_def left_diff_distrib)
  then have "\<bar>r - x\<bar> = \<bar>of_int k - x / u\<bar> * u"
    using upos by (simp add: abs_mult)
  also have "\<dots> \<le> (1 / 2) * u"
    unfolding k_def using upos round_half_even_close [of "x / u"]
    by (intro mult_right_mono) simp_all
  also have "\<dots> \<le> a / 2 ^ 53"
    using ua by simp
  finally have err: "\<bar>r - x\<bar> \<le> a / 2 ^ 53" .
  have "\<bar>r\<bar> \<le> a + a / 2 ^ 53"
    using err unfolding a_def by linarith
  also have "\<dots> < 2 * a"
    using apos by simp
  finally have "\<not> overflow_threshold \<le> \<bar>r\<bar>"
    using hi unfolding a_def by linarith
  then have "fl x = Num r"
    using x0 by (simp add: fl_def Let_def r_def k_def u_def)
  then show ?thesis
    using err by (auto simp: a_def unit_roundoff_def)
qed

text \<open>A power of two is a double, or overflows.\<close>

lemma fl_powr_int:
  assumes "- 1022 \<le> k"
  shows "fl (2 powr of_int k) = (if 1024 \<le> k then PInf else Num (2 powr of_int k))"
proof -
  let ?x = "2 powr real_of_int k"
  have "\<lfloor>log 2 \<bar>?x\<bar>\<rfloor> = k" by simp
  then have ulp: "ulp_of ?x = 2 powr of_int (k - 52)"
    using assms by (simp add: ulp_of_def max_def)
  have "?x / ulp_of ?x = 2 powr 52"
    unfolding ulp by (simp add: powr_diff del: powr_numeral)
  also have "\<dots> = of_int (2 ^ 52)"
    by simp
  finally have "fl ?x = (if overflow_threshold \<le> \<bar>?x\<bar> then inf_of_sign (0 < ?x) else Num ?x)"
    by (intro fl_exact) simp_all
  moreover have "overflow_threshold \<le> \<bar>?x\<bar> \<longleftrightarrow> 1024 \<le> k"
  proof -
    have "((2::real) powr 1024 \<le> 2 powr real_of_int k) = (1024 \<le> real_of_int k)"
      by (rule powr_le_cancel_iff) simp
    moreover have "(1024 \<le> real_of_int k) = (1024 \<le> k)"
      by linarith
    moreover have "\<bar>?x\<bar> = ?x"
      by simp
    ultimately show ?thesis
      by (simp only: overflow_threshold_def)
  qed
  ultimately show ?thesis
    by (simp add: inf_of_sign_def)
qed

lemma fl_tiny:
  assumes "0 < x" and "x < 2 powr (- 1075)"
  shows "fl x = Num 0"
proof -
  have "log 2 x < log 2 (2 powr (- 1075))"
    using assms by (subst log_less_cancel_iff) simp_all
  moreover have "log 2 (2 powr (- 1075)) = - 1075"
    by (rule log_powr_cancel) simp_all
  ultimately have "log 2 x < - 1075" by (simp only:)
  then have "\<lfloor>log 2 x\<rfloor> \<le> - 1022" by linarith
  then have ulp: "ulp_of x = 2 powr (- 1074)"
    using assms(1) by (simp add: ulp_of_def max_def )
  have "(2::real) powr (- 1074 - 1) = 2 powr (- 1074) / 2 powr 1"
    by (rule powr_diff)
  then have "2 powr (- 1075) = 2 powr (- 1074) / (2::real)"
    by (simp )
  then have "x / ulp_of x < 1 / 2"
    using assms(2) by (simp add: ulp field_simps )
  moreover have "0 < x / ulp_of x"
    using assms(1) ulp_of_pos [of x] by simp
  ultimately have half: "x / ulp_of x < 1 / 2" and "0 \<le> x / ulp_of x \<and> x / ulp_of x < 1"
    by linarith+
  then have "\<lfloor>x / ulp_of x\<rfloor> = 0"
    by (simp only: floor_eq_iff) simp
  with half have "round_half_even (x / ulp_of x) = 0"
    by (simp add: round_half_even_def Let_def)
  moreover have "0 < overflow_threshold"
    by (simp add: overflow_threshold_def del: powr_numeral)
  ultimately show ?thesis
    using assms(1) by (simp add: fl_def Let_def)
qed


lemma min_normal_pos: "0 < min_normal"
  by (simp add: min_normal_def)

lemma min_normal_le: "8 * min_normal \<le> 1"
proof -
  have "(2::real) powr (- 1022) \<le> 2 powr (- 3)"
    by (rule powr_mono) simp_all
  moreover have "(2::real) powr (- 3) = 1 / 8"
    by (simp add: powr_neg_numeral)
  ultimately show ?thesis
    unfolding min_normal_def by linarith
qed

lemma rel_error_bounds:
  fixes x r c :: real
  assumes "\<bar>r - x\<bar> \<le> x * c"
  shows "x * (1 - c) \<le> r" and "r \<le> x * (1 + c)"
proof -
  define y where "y = x * c"
  have "\<bar>r - x\<bar> \<le> y"
    using assms by (simp only: y_def)
  then have "x - y \<le> r" and "r \<le> x + y"
    by (simp_all only: abs_le_iff) linarith+
  moreover have "x * (1 - c) = x - y" and "x * (1 + c) = x + y"
    by (simp_all add: y_def algebra_simps)
  ultimately show "x * (1 - c) \<le> r" and "r \<le> x * (1 + c)"
    by (simp_all only:)
qed

lemma fl_self_quotient:
  assumes lo: "4 * min_normal \<le> s" and hi: "8 * s \<le> overflow_threshold"
  shows "\<exists>n d q. fl (sqrt s) = Num n \<and> fl (n * n) = Num d \<and> d \<noteq> 0
           \<and> fl (s / d) = Num q \<and> \<bar>q - 1\<bar> \<le> 1 / 2 ^ 50"
proof -
  define l :: real where "l = 1 - unit_roundoff"
  define u :: real where "u = 1 + unit_roundoff"
  have l: "0 < l" "1 / 2 \<le> l" "l \<le> 1" and u: "1 \<le> u" "u \<le> 2" "0 < u"
    by (simp_all add: l_def u_def unit_roundoff_def)
  have final: "u / (l * l * l) \<le> 1 + 1 / 2 ^ 50" "1 - 1 / 2 ^ 50 \<le> l / (u * u * u)"
    by (simp_all add: l_def u_def unit_roundoff_def)
  have spos: "0 < s"
    using lo min_normal_pos by linarith
  define r where "r = sqrt s"
  have rpos: "0 < r" and rr: "r * r = s"
    using spos by (simp_all add: r_def)
  have big: "16 \<le> overflow_threshold"
    using overflow_threshold_ge by simp
  have r_range: "min_normal \<le> \<bar>r\<bar> \<and> 2 * \<bar>r\<bar> \<le> overflow_threshold"
  proof (cases "1 \<le> s")
    case True
    then have "1 \<le> r" by (simp add: r_def)
    moreover have "r \<le> s"
      using \<open>1 \<le> r\<close> rpos rr by (metis mult_le_cancel_left_pos mult.right_neutral)
    ultimately show ?thesis
      using min_normal_le min_normal_pos hi spos by auto
  next
    case False
    then have "r \<le> 1"
      using spos by (simp add: r_def)
    then have "r * r \<le> r * 1"
      using rpos by (intro mult_left_mono) simp_all
    then have "s \<le> r" by (simp add: rr)
    then show ?thesis
      using \<open>r \<le> 1\<close> rpos lo min_normal_pos big by auto
  qed
  then obtain n where n: "fl r = Num n" and nerr: "\<bar>n - r\<bar> \<le> r * unit_roundoff"
    using fl_normal [of r] rpos by auto
  have n_lo: "r * l \<le> n" and n_hi: "n \<le> r * u"
    unfolding l_def u_def using nerr by (rule rel_error_bounds)+
  have npos: "0 < n"
    using n_lo rpos l by (meson less_le_trans mult_pos_pos)
  define m where "m = n * n"
  have m_lo: "s * (l * l) \<le> m"
  proof -
    have "0 \<le> r * l"
      using rpos l by simp
    then have "(r * l) * (r * l) \<le> n * n"
      using n_lo npos by (intro mult_mono) simp_all
    then show ?thesis by (simp add: m_def rr [symmetric] algebra_simps)
  qed
  have m_hi: "m \<le> s * (u * u)"
  proof -
    have "n * n \<le> (r * u) * (r * u)"
      using n_hi npos by (intro mult_mono) simp_all
    then show ?thesis by (simp add: m_def rr [symmetric] algebra_simps)
  qed
  have mpos: "0 < m" using npos by (simp add: m_def)
  have ll: "1 / 4 \<le> l * l"
  proof -
    have "(1 / 2) * (1 / 2) \<le> l * l" using l by (intro mult_mono) simp_all
    then show ?thesis by simp
  qed
  have uu: "u * u \<le> 4"
  proof -
    have "u * u \<le> 2 * 2" using u by (intro mult_mono) simp_all
    then show ?thesis by simp
  qed
  have "s * (1 / 4) \<le> s * (l * l)" using spos ll by (intro mult_left_mono) simp_all
  then have m4: "s / 4 \<le> m" using m_lo by simp
  have "s * (u * u) \<le> s * 4" using spos uu by (intro mult_left_mono) simp_all
  then have m4': "m \<le> 4 * s" using m_hi by simp
  have "min_normal \<le> \<bar>m\<bar> \<and> 2 * \<bar>m\<bar> \<le> overflow_threshold"
    using m4 m4' lo hi mpos by auto
  then obtain d where d: "fl m = Num d" and derr: "\<bar>d - m\<bar> \<le> m * unit_roundoff"
    using fl_normal [of m] mpos by auto
  have d_lo: "m * l \<le> d" and d_hi: "d \<le> m * u"
    unfolding l_def u_def using derr by (rule rel_error_bounds)+
  have d_lo': "s * (l * l * l) \<le> d"
  proof -
    have "s * (l * l) * l \<le> m * l" using m_lo l by (intro mult_right_mono) simp_all
    then show ?thesis using d_lo by (simp add: mult.assoc)
  qed
  have d_hi': "d \<le> s * (u * u * u)"
  proof -
    have "m * u \<le> s * (u * u) * u" using m_hi u by (intro mult_right_mono) simp_all
    then show ?thesis using d_hi by (simp add: mult.assoc)
  qed
  have lll: "0 < l * l * l" and uuu: "0 < u * u * u"
    using l u by simp_all
  have dpos: "0 < d"
    using d_lo' spos lll by (meson less_le_trans mult_pos_pos)
  define t where "t = s / d"
  have tpos: "0 < t" using spos dpos by (simp add: t_def)
  have t_hi: "t \<le> 1 / (l * l * l)"
  proof -
    have "s / d \<le> s / (s * (l * l * l))"
      using d_lo' spos lll dpos by (intro divide_left_mono) simp_all
    then show ?thesis using spos by (simp add: t_def)
  qed
  have t_lo: "1 / (u * u * u) \<le> t"
  proof -
    have "s / (s * (u * u * u)) \<le> s / d"
      using d_hi' spos dpos by (intro divide_left_mono) simp_all
    then show ?thesis using spos by (simp add: t_def)
  qed
  have "1 / (l * l * l) \<le> 8"
  proof -
    have "(1 / 2) * (1 / 2) * (1 / 2) \<le> l * l * l"
      using l by (intro mult_mono) simp_all
    then have "1 / 8 \<le> l * l * l" by simp
    then show ?thesis using lll by (simp add: field_simps)
  qed
  moreover have "1 / 8 \<le> 1 / (u * u * u)"
  proof -
    have "u * u * u \<le> 2 * 2 * 2"
      using u by (intro mult_mono) simp_all
    then show ?thesis using uuu by (simp add: field_simps)
  qed
  ultimately have "min_normal \<le> \<bar>t\<bar> \<and> 2 * \<bar>t\<bar> \<le> overflow_threshold"
    using t_lo t_hi tpos min_normal_le min_normal_pos big by auto
  then obtain q where q: "fl t = Num q" and qerr: "\<bar>q - t\<bar> \<le> t * unit_roundoff"
    using fl_normal [of t] tpos by auto
  have q_lo: "t * l \<le> q" and q_hi: "q \<le> t * u"
    unfolding l_def u_def using qerr by (rule rel_error_bounds)+
  have "t * u \<le> (1 / (l * l * l)) * u"
    using t_hi u by (intro mult_right_mono) simp_all
  then have "t * u \<le> u / (l * l * l)"
    by (simp only: times_divide_eq_left mult_1)
  then have q1: "q \<le> 1 + 1 / 2 ^ 50"
    using q_hi final(1) by (meson order_trans)
  have "(1 / (u * u * u)) * l \<le> t * l"
    using t_lo l by (intro mult_right_mono) simp_all
  then have "l / (u * u * u) \<le> t * l"
    by (simp only: times_divide_eq_left mult_1)
  then have q2: "1 - 1 / 2 ^ 50 \<le> q"
    using q_lo final(2) by (meson order_trans)
  have "q - 1 \<le> 1 / 2 ^ 50" and "- (q - 1) \<le> 1 / 2 ^ 50"
    using q1 q2 by linarith+
  then have "\<bar>q - 1\<bar> \<le> 1 / 2 ^ 50"
    by (rule abs_leI)
  then show ?thesis
    using n d q dpos by (auto simp: r_def m_def t_def)
qed

section \<open>The cosine similarity\<close>

lemma jadd_NaN_right [simp]: "jadd x NaN = NaN"
  by (cases x) simp_all

lemma jmul_NaN_right [simp]: "jmul x NaN = NaN"
  by (cases x) simp_all

lemma jmul_commute: "jmul x y = jmul y x"
  by (cases x; cases y) (simp_all add: mult.commute)

lemma reduce_from_NaN:
  "reduce_from (\<lambda>sum val i. jadd sum (g val i)) NaN k xs = NaN"
  by (induction xs arbitrary: k) simp_all

text \<open>The sum runs over the indices of the first vector, reading the second at each.\<close>

lemma reduce_from_dot:
  "k + length xs \<le> length b \<Longrightarrow>
   reduce_from (\<lambda>sum val i. jadd sum (jmul val (num_at b i))) acc k xs
     = foldl jadd acc (map2 jmul xs (drop k b))"
proof (induction xs arbitrary: acc k)
  case Nil
  then show ?case by simp
next
  case (Cons x xs)
  then have k: "k < length b" by simp
  then have "drop k b = b ! k # drop (Suc k) b"
    by (simp add: Cons_nth_drop_Suc)
  moreover have "Suc k + length xs \<le> length b"
    using Cons.prems by simp
  ultimately show ?case
    using Cons.IH [of "Suc k"] k by (simp add: num_at_def)
qed

lemma reduce_from_dot_overrun:
  "length b < k + length xs \<Longrightarrow> k \<le> length b \<Longrightarrow>
   reduce_from (\<lambda>sum val i. jadd sum (jmul val (num_at b i))) acc k xs = NaN"
proof (induction xs arbitrary: acc k)
  case Nil
  then show ?case by simp
next
  case (Cons x xs)
  show ?case
  proof (cases "k < length b")
    case True
    then have "length b < Suc k + length xs" and "Suc k \<le> length b"
      using Cons.prems by simp_all
    then show ?thesis
      using Cons.IH [of "Suc k"] by simp
  next
    case False
    then have "num_at b k = NaN"
      by (simp add: num_at_def)
    then show ?thesis
      by (simp add: reduce_from_NaN)
  qed
qed

lemma dotProduct_within:
  "length a \<le> length b \<Longrightarrow> dotProduct a b = foldl jadd (Num 0) (map2 jmul a b)"
  using reduce_from_dot [of 0 a b "Num 0"] by (simp add: dotProduct_def reduce_def)

lemma dotProduct_overrun:
  "length b < length a \<Longrightarrow> dotProduct a b = NaN"
  using reduce_from_dot_overrun [of b 0 a "Num 0"] by (simp add: dotProduct_def reduce_def)

lemma jdiv_NaN_left: "jdiv NaN y = NaN"
  by simp

lemma cosineSimilarity_overrun:
  "length b < length a \<Longrightarrow> cosineSimilarity a b = NaN"
  by (simp add: cosineSimilarity_def Let_def dotProduct_overrun)

lemma map2_jmul_commute: "map2 jmul a b = map2 jmul b a"
proof (induction a arbitrary: b)
  case Nil
  then show ?case by simp
next
  case (Cons x xs)
  then show ?case
    by (cases b) (simp_all add: jmul_commute)
qed

lemma dotProduct_commute:
  "length a = length b \<Longrightarrow> dotProduct a b = dotProduct b a"
  by (simp add: dotProduct_within map2_jmul_commute [of a b])

lemma cosineSimilarity_commute:
  "length a = length b \<Longrightarrow> cosineSimilarity a b = cosineSimilarity b a"
  by (simp add: cosineSimilarity_def Let_def dotProduct_commute
      jmul_commute [of "jsqrt (sumOfSquares a)"])

text \<open>
  The dot product of a vector with itself is its sum of squares: the same products are
  added in the same order, so the two computed values are one.
\<close>

lemma reduce_from_foldl:
  "reduce_from (\<lambda>sum val i. g sum val) acc k xs = foldl g acc xs"
  by (induction xs arbitrary: acc k) simp_all

lemma sumOfSquares_foldl:
  "sumOfSquares a = foldl (\<lambda>sum val. jadd sum (jmul val val)) (Num 0) a"
  by (simp add: sumOfSquares_def reduce_def reduce_from_foldl)

lemma foldl_map2_same:
  "foldl jadd acc (map2 jmul a a) = foldl (\<lambda>sum val. jadd sum (jmul val val)) acc a"
  by (induction a arbitrary: acc) simp_all

lemma dotProduct_self: "dotProduct a a = sumOfSquares a"
  by (simp add: dotProduct_within sumOfSquares_foldl foldl_map2_same)

lemma cosineSimilarity_self:
  assumes "moderate_vector a"
  shows "near_one (1 / 2 ^ 50) (cosineSimilarity a a)"
proof -
  obtain s where s: "sumOfSquares a = Num s"
    and range: "4 * min_normal \<le> s" "8 * s \<le> overflow_threshold"
    using assms by (auto simp: moderate_vector_def split: jsnum.splits)
  have "0 < s"
    using range(1) min_normal_pos by linarith
  obtain n d q where n: "fl (sqrt s) = Num n" and d: "fl (n * n) = Num d" and "d \<noteq> 0"
    and q: "fl (s / d) = Num q" and near: "\<bar>q - 1\<bar> \<le> 1 / 2 ^ 50"
    using fl_self_quotient [OF range] by blast
  have "jsqrt (Num s) = Num n"
    using \<open>0 < s\<close> n by simp
  then have "cosineSimilarity a a = Num q"
    using d q \<open>d \<noteq> 0\<close> by (simp add: cosineSimilarity_def Let_def dotProduct_self s)
  then show ?thesis
    using near by simp
qed

lemma moderate_vector_example:
  shows "4 * min_normal \<le> 25" and "200 \<le> overflow_threshold" and "4 * min_normal \<le> 1"
    and "8 \<le> overflow_threshold"
proof -
  show "4 * min_normal \<le> 25" and "4 * min_normal \<le> 1"
    using min_normal_le min_normal_pos by linarith+
  have "(200::real) \<le> 2 ^ 53"
    by simp
  then show "200 \<le> overflow_threshold" and "8 \<le> overflow_threshold"
    using overflow_threshold_ge by linarith+
qed

text \<open>The square of \<open>huge\<close> overflows and the square of \<open>tiny\<close> underflows to zero.\<close>

lemma fl_huge_square: "fl (huge * huge) = PInf"
proof -
  have "huge * huge = 2 powr real_of_int 1200"
    unfolding huge_def powr_add [symmetric] by simp
  then show ?thesis
    using fl_powr_int [of 1200] by simp
qed

lemma fl_tiny_square: "fl (tiny * tiny) = Num 0"
proof -
  have eq: "tiny * tiny = 2 powr (- 1200)"
    unfolding tiny_def powr_add [symmetric] by simp
  have "(2::real) powr (- 1200) < 2 powr (- 1075)"
    by (rule powr_less_mono) simp_all
  moreover have "(0::real) < 2 powr (- 1200)"
    by simp
  ultimately show ?thesis
    unfolding eq by (rule fl_tiny [rotated])
qed

lemma zip_take_left: "zip a (take (length a) b) = zip a b"
proof (induction a arbitrary: b)
  case Nil
  then show ?case by simp
next
  case (Cons x xs)
  then show ?case by (cases b) simp_all
qed

lemma jmul_one_not_NaN: "z \<noteq> NaN \<Longrightarrow> jmul (Num 1) z \<noteq> NaN"
  by (cases z) (simp_all add: inf_of_sign_def)

lemma jdiv_one_not_NaN: "z \<noteq> NaN \<Longrightarrow> jdiv (Num 1) z \<noteq> NaN"
  by (cases z) (simp_all add: inf_of_sign_def)

lemma jsqrt_Num_not_NaN [simp]: "0 \<le> x \<Longrightarrow> jsqrt (Num x) \<noteq> NaN"
  by simp

lemmas cosine_eval =
  cosineSimilarity_def dotProduct_def sumOfSquares_def reduce_def num_at_def Let_def

text \<open>
  Claim C2, as amended. \<open>cosineSimilarity\<close> checks no dimension and has no failing
  branch. Its dot product runs over the indices of the first vector \<open>a\<close>, not of the
  shorter one. When \<open>a\<close> is not longer than \<open>b\<close>, the dot product pairs \<open>a\<close> with the
  first \<open>length a\<close> entries of \<open>b\<close> while the norm of \<open>b\<close> still covers all of \<open>b\<close>.
  When \<open>a\<close> is longer than \<open>b\<close>, the entries of \<open>b\<close> past its end read as undefined
  and the result is \<open>NaN\<close>.
\<close>

theorem cosineSimilarity_mismatched_lengths:
  "(length a \<le> length b \<longrightarrow>
      cosineSimilarity a b =
        jdiv (foldl jadd (Num 0) (map2 jmul a (take (length a) b)))
             (jmul (jsqrt (sumOfSquares a)) (jsqrt (sumOfSquares b))))
   \<and> (length b < length a \<longrightarrow> cosineSimilarity a b = NaN)"
proof -
  have "map2 jmul a (take (length a) b) = map2 jmul a b"
    by (simp add: zip_take_left)
  then show ?thesis
    by (simp add: cosineSimilarity_overrun) (simp add: cosineSimilarity_def Let_def dotProduct_within)
qed

theorem cosineSimilarity_mismatched_lengths_witness:
  "length [Num 3] \<le> length [Num 4, Num 3]
   \<and> cosineSimilarity [Num 3] [Num 4, Num 3] = jdiv (Num 12) (jmul (Num 3) (Num 5))
   \<and> length [Num 3] < length [Num 4, Num 3]
   \<and> cosineSimilarity [Num 4, Num 3] [Num 3] = NaN"
proof -
  have "sqrt 25 = sqrt (5 * 5)" by simp
  then have five: "sqrt 25 = 5" by (simp del: real_sqrt_mult_self add: real_sqrt_mult)
  have "sqrt 9 = sqrt (3 * 3)" by simp
  then have three: "sqrt 9 = 3" by (simp del: real_sqrt_mult_self add: real_sqrt_mult)
  have norms: "jsqrt (sumOfSquares [Num 3]) = Num 3" "jsqrt (sumOfSquares [Num 4, Num 3]) = Num 5"
    by (simp_all add: sumOfSquares_def reduce_def five three)
  have dot: "foldl jadd (Num 0) (map2 jmul [Num 3] (take (length [Num 3]) [Num 4, Num 3])) = Num 12"
    by simp
  show ?thesis
    using cosineSimilarity_mismatched_lengths [of "[Num 3]" "[Num 4, Num 3]"]
      cosineSimilarity_mismatched_lengths [of "[Num 4, Num 3]" "[Num 3]"]
    by (simp only: norms dot) simp
qed

text \<open>
  Claim C2 as stated fails: with \<open>a = [1, 2]\<close> and \<open>b = [1]\<close> the sum over the indices
  of the shorter vector is 1, and the dot product of the program is \<open>NaN\<close>.
\<close>

theorem cosineSimilarity_shorter_indices_counterexample:
  "dot_over_shorter [Num 1, Num 2] [Num 1] = Num 1
   \<and> dotProduct [Num 1, Num 2] [Num 1] = NaN
   \<and> dotProduct [Num 1, Num 2] [Num 1] \<noteq> dot_over_shorter [Num 1, Num 2] [Num 1]
   \<and> cosineSimilarity [Num 1, Num 2] [Num 1] = NaN"
  by (simp add: cosine_eval dot_over_shorter_def)

text \<open>
  Claim C4, as amended. For two vectors of equal length \<open>cosineSimilarity a b\<close> and
  \<open>cosineSimilarity b a\<close> are the same value, the same number or both \<open>NaN\<close>, so they
  compare equal with \<^verbatim>\<open>==\<close> unless the value is \<open>NaN\<close>. For a list \<open>V\<close> whose
  vectors all have the same length, the cells \<open>[i][j]\<close> and \<open>[j][i]\<close> of
  \<open>computeCorrelationMatrix V V\<close> are the same value.
\<close>

theorem cosineSimilarity_symmetric:
  "(length a = length b \<longrightarrow>
      cosineSimilarity a b = cosineSimilarity b a
      \<and> (cosineSimilarity a b \<noteq> NaN \<longrightarrow>
           js_eq (cosineSimilarity a b) (cosineSimilarity b a)))
   \<and> ((\<forall>v \<in> set V. \<forall>w \<in> set V. length v = length w) \<longrightarrow>
        (\<forall>i < length V. \<forall>j < length V.
           computeCorrelationMatrix V V ! i ! j = computeCorrelationMatrix V V ! j ! i))"
proof -
  have "cosineSimilarity (V ! i) (V ! j) = cosineSimilarity (V ! j) (V ! i)"
    if "\<forall>v \<in> set V. \<forall>w \<in> set V. length v = length w" "i < length V" "j < length V" for i j
  proof -
    have "length (V ! i) = length (V ! j)"
      using that by (meson nth_mem)
    then show ?thesis by (rule cosineSimilarity_commute)
  qed
  then show ?thesis
    by (auto simp: computeCorrelationMatrix_map js_eq_def cosineSimilarity_commute)
qed

theorem cosineSimilarity_symmetric_witness:
  "length [Num 1, Num 0] = length [Num 0, Num 1]
   \<and> cosineSimilarity [Num 1, Num 0] [Num 0, Num 1] = cosineSimilarity [Num 0, Num 1] [Num 1, Num 0]
   \<and> cosineSimilarity [Num 1, Num 0] [Num 0, Num 1] \<noteq> NaN
   \<and> js_eq (cosineSimilarity [Num 1, Num 0] [Num 0, Num 1])
           (cosineSimilarity [Num 0, Num 1] [Num 1, Num 0])
   \<and> computeCorrelationMatrix [[Num 1, Num 0], [Num 0, Num 1]] [[Num 1, Num 0], [Num 0, Num 1]] ! 0 ! 1
       = computeCorrelationMatrix [[Num 1, Num 0], [Num 0, Num 1]] [[Num 1, Num 0], [Num 0, Num 1]] ! 1 ! 0"
proof -
  note sym = cosineSimilarity_symmetric [of "[Num 1, Num 0]" "[Num 0, Num 1]"
        "[[Num 1, Num 0], [Num 0, Num 1]]"]
  have len: "length [Num 1, Num 0] = length [Num 0, Num 1]"
    by simp
  have "cosineSimilarity [Num 1, Num 0] [Num 0, Num 1] = Num 0"
    by (simp add: cosine_eval)
  then have cell: "cosineSimilarity [Num 1, Num 0] [Num 0, Num 1] \<noteq> NaN"
    by simp
  note pair = sym [THEN conjunct1, THEN mp, OF len]
  note same = pair [THEN conjunct1] and eq = pair [THEN conjunct2, THEN mp, OF cell]
  have all: "\<forall>v \<in> set [[Num 1, Num 0], [Num 0, Num 1]].
               \<forall>w \<in> set [[Num 1, Num 0], [Num 0, Num 1]]. length v = length w"
    by simp
  have cells: "computeCorrelationMatrix [[Num 1, Num 0], [Num 0, Num 1]] [[Num 1, Num 0], [Num 0, Num 1]] ! 0 ! 1
       = computeCorrelationMatrix [[Num 1, Num 0], [Num 0, Num 1]] [[Num 1, Num 0], [Num 0, Num 1]] ! 1 ! 0"
    by (rule sym [THEN conjunct2, THEN mp, OF all, rule_format]) simp_all
  show ?thesis
    using len same cell eq cells by blast
qed

text \<open>
  Claim C4 as stated fails on a list of vectors of different lengths: with
  \<open>V = [[1], [1, 2]]\<close> the cell \<open>[0][1]\<close> is a number, the quotient of 1 by the norm of
  \<open>[1, 2]\<close>, and the cell \<open>[1][0]\<close> is \<open>NaN\<close>.
\<close>

theorem correlation_matrix_symmetric_counterexample:
  "computeCorrelationMatrix [[Num 1], [Num 1, Num 2]] [[Num 1], [Num 1, Num 2]] ! 0 ! 1
     = jdiv (Num 1) (jmul (Num 1) (jsqrt (Num 5)))
   \<and> computeCorrelationMatrix [[Num 1], [Num 1, Num 2]] [[Num 1], [Num 1, Num 2]] ! 0 ! 1 \<noteq> NaN
   \<and> computeCorrelationMatrix [[Num 1], [Num 1, Num 2]] [[Num 1], [Num 1, Num 2]] ! 1 ! 0 = NaN
   \<and> \<not> js_eq (computeCorrelationMatrix [[Num 1], [Num 1, Num 2]] [[Num 1], [Num 1, Num 2]] ! 0 ! 1)
             (computeCorrelationMatrix [[Num 1], [Num 1, Num 2]] [[Num 1], [Num 1, Num 2]] ! 1 ! 0)"
proof -
  have a: "computeCorrelationMatrix [[Num 1], [Num 1, Num 2]] [[Num 1], [Num 1, Num 2]] ! 0 ! 1
     = jdiv (Num 1) (jmul (Num 1) (jsqrt (Num 5)))"
    by (simp add: computeCorrelationMatrix_map cosine_eval del: jsqrt.simps jmul.simps jdiv.simps)
      (simp del: jdiv.simps)
  have "jsqrt (Num 5) \<noteq> NaN"
    by simp
  then have "jmul (Num 1) (jsqrt (Num 5)) \<noteq> NaN"
    by (rule jmul_one_not_NaN)
  then have b: "jdiv (Num 1) (jmul (Num 1) (jsqrt (Num 5))) \<noteq> NaN"
    by (rule jdiv_one_not_NaN)
  have c: "computeCorrelationMatrix [[Num 1], [Num 1, Num 2]] [[Num 1], [Num 1, Num 2]] ! 1 ! 0 = NaN"
    by (simp add: computeCorrelationMatrix_map cosineSimilarity_overrun)
  show ?thesis
    using a b c by (simp add: js_eq_def)
qed

text \<open>
  Claim C5, as amended. For every vector \<open>a\<close> whose computed sum of squares is a finite
  number between \<open>2 ^ - 1020\<close> and \<open>2 ^ 1021\<close> (so \<open>a\<close> is not all zero, and its norm
  and the square of its norm stay in range), \<open>cosineSimilarity a a\<close> is a number within
  \<open>2 ^ - 50\<close> of 1,
  and for every list \<open>V\<close> of such vectors every diagonal cell of
  \<open>computeCorrelationMatrix V V\<close> is within \<open>2 ^ - 50\<close> of 1.
\<close>

theorem cosineSimilarity_self_one:
  "(moderate_vector a \<longrightarrow> near_one (1 / 2 ^ 50) (cosineSimilarity a a))
   \<and> ((\<forall>v \<in> set V. moderate_vector v) \<longrightarrow>
        (\<forall>i < length V. near_one (1 / 2 ^ 50) (computeCorrelationMatrix V V ! i ! i)))"
proof (intro conjI impI allI)
  assume "moderate_vector a"
  then show "near_one (1 / 2 ^ 50) (cosineSimilarity a a)"
    by (rule cosineSimilarity_self)
next
  fix i
  assume "\<forall>v \<in> set V. moderate_vector v" and i: "i < length V"
  then have "moderate_vector (V ! i)"
    by simp
  then have "near_one (1 / 2 ^ 50) (cosineSimilarity (V ! i) (V ! i))"
    by (rule cosineSimilarity_self)
  then show "near_one (1 / 2 ^ 50) (computeCorrelationMatrix V V ! i ! i)"
    using i by (simp add: computeCorrelationMatrix_map)
qed

theorem cosineSimilarity_self_one_witness:
  "moderate_vector [Num 3, Num 4]
   \<and> near_one (1 / 2 ^ 50) (cosineSimilarity [Num 3, Num 4] [Num 3, Num 4])
   \<and> moderate_vector [Num 1, Num 0] \<and> moderate_vector [Num 0, Num 1]
   \<and> near_one (1 / 2 ^ 50)
        (computeCorrelationMatrix [[Num 1, Num 0], [Num 0, Num 1]] [[Num 1, Num 0], [Num 0, Num 1]] ! 1 ! 1)"
proof -
  have sums: "sumOfSquares [Num 3, Num 4] = Num 25" "sumOfSquares [Num 1, Num 0] = Num 1"
    "sumOfSquares [Num 0, Num 1] = Num 1"
    by (simp_all add: sumOfSquares_def reduce_def)
  have "4 * min_normal \<le> 25 \<and> 8 * 25 \<le> overflow_threshold"
    and "4 * min_normal \<le> 1 \<and> 8 * 1 \<le> overflow_threshold"
    using moderate_vector_example by linarith+
  then have m: "moderate_vector [Num 3, Num 4]" "moderate_vector [Num 1, Num 0]"
    "moderate_vector [Num 0, Num 1]"
    unfolding moderate_vector_def sums by (simp_all only: jsnum.case)
  note one = cosineSimilarity_self_one [of "[Num 3, Num 4]" "[[Num 1, Num 0], [Num 0, Num 1]]"]
  have first: "near_one (1 / 2 ^ 50) (cosineSimilarity [Num 3, Num 4] [Num 3, Num 4])"
    using one [THEN conjunct1] m(1) by (rule mp)
  have all: "\<forall>v \<in> set [[Num 1, Num 0], [Num 0, Num 1]]. moderate_vector v"
    using m by simp
  have second: "near_one (1 / 2 ^ 50)
        (computeCorrelationMatrix [[Num 1, Num 0], [Num 0, Num 1]] [[Num 1, Num 0], [Num 0, Num 1]] ! 1 ! 1)"
    by (rule one [THEN conjunct2, THEN mp, OF all, rule_format]) simp
  show ?thesis
    using m first second by blast
qed

text \<open>
  Claim C5 as stated fails on the non-empty vector \<open>[0]\<close>: both norms are zero, the
  quotient is \<open>0 / 0\<close>, and the result is \<open>NaN\<close>, on the diagonal of the matrix as well.
  It fails on \<open>[2 ^ 600]\<close>, whose square overflows, so that the quotient is
  \<open>Infinity / Infinity\<close>, and on \<open>[2 ^ - 600]\<close>, whose square underflows to zero.
\<close>

theorem cosineSimilarity_self_counterexample:
  "cosineSimilarity [Num 0] [Num 0] = NaN
   \<and> \<not> near_one 1 (cosineSimilarity [Num 0] [Num 0])
   \<and> computeCorrelationMatrix [[Num 0]] [[Num 0]] ! 0 ! 0 = NaN
   \<and> cosineSimilarity [Num huge] [Num huge] = NaN
   \<and> cosineSimilarity [Num tiny] [Num tiny] = NaN"
  by (simp add: computeCorrelationMatrix_map cosine_eval fl_huge_square fl_tiny_square)

section \<open>Labels\<close>

lemma startsWith_prefix: "startsWith s p \<longleftrightarrow> prefix p s"
  unfolding startsWith_def
  by (metis prefix_def append_eq_conv_conj append_take_drop_id)

lemma endsWith_suffix: "endsWith s p \<longleftrightarrow> suffix p s"
proof
  assume "endsWith s p"
  then have "s = take (length s - length p) s @ p"
    by (metis endsWith_def append_take_drop_id)
  then show "suffix p s"
    by (rule suffixI)
next
  assume "suffix p s"
  then obtain q where "s = q @ p" by (rule suffixE)
  then show "endsWith s p"
    by (simp add: endsWith_def)
qed

lemma isImagePath_iff: "isImagePath text \<longleftrightarrow> is_image_reference text"
  by (simp add: isImagePath_def is_image_reference_def startsWith_prefix endsWith_suffix)

lemma slice_from_start_take:
  "0 \<le> e \<Longrightarrow> slice_from_start s e = take (nat e) s"
  by (simp add: slice_from_start_def Let_def min_def)

text \<open>
  Claim C8. For every text and every bound \<open>maxLen\<close> (a length, so not negative; 32
  when left out), \<open>truncateLabel\<close> returns the placeholder glyph when the text is an
  image reference (it starts with \<^verbatim>\<open>data:image/\<close>, \<^verbatim>\<open>http://\<close> or \<^verbatim>\<open>https://\<close>, or
  ends in this very case with \<^verbatim>\<open>.jpg\<close>, \<^verbatim>\<open>.jpeg\<close>, \<^verbatim>\<open>.png\<close>, \<^verbatim>\<open>.gif\<close> or \<^verbatim>\<open>.webp\<close>);
  otherwise the text itself when it has at most \<open>maxLen\<close> code units, and its first
  \<open>maxLen\<close> code units followed by the ellipsis when it has more.
\<close>

theorem truncateLabel_cases:
  "(0 \<le> maxLen \<longrightarrow>
      truncateLabel text maxLen =
        (if is_image_reference text then image_glyph
         else if int (length text) \<le> maxLen then text
         else take (nat maxLen) text @ ellipsis))
   \<and> truncateLabel_default text =
        (if is_image_reference text then image_glyph
         else if length text \<le> 32 then text
         else take 32 text @ ellipsis)"
  by (simp add: truncateLabel_def truncateLabel_default_def isImagePath_iff slice_from_start_take)

lemmas label_eval = is_image_reference_def ascii_def suffix_to_prefix

theorem truncateLabel_cases_witness:
  "(0::int) \<le> 32
   \<and> truncateLabel (ascii ''https://example.com/x.png'') 32 = image_glyph
   \<and> truncateLabel (ascii ''0123456789012345678901234567890123456789'') 32
       = ascii ''01234567890123456789012345678901'' @ ellipsis
   \<and> truncateLabel (ascii ''0123456789'') 32 = ascii ''0123456789''
   \<and> truncateLabel (ascii ''photos/cat.webp'') 32 = image_glyph
   \<and> truncateLabel (ascii ''abcdef'') 4 = ascii ''abcd'' @ ellipsis"
  using truncateLabel_cases [of 32 "ascii ''https://example.com/x.png''"]
    truncateLabel_cases [of 32 "ascii ''0123456789012345678901234567890123456789''"]
    truncateLabel_cases [of 32 "ascii ''0123456789''"]
    truncateLabel_cases [of 32 "ascii ''photos/cat.webp''"]
    truncateLabel_cases [of 4 "ascii ''abcdef''"]
  by (simp add: label_eval)

section \<open>The URL reader\<close>

lemma trim_whitespace_only:
  assumes "list_all is_whitespace url"
  shows "trim url = []"
proof -
  have empty: "dropWhile is_whitespace url = []"
    using assms by (simp add: list_all_iff)
  show ?thesis
    unfolding trim_def empty by simp
qed

text \<open>
  Claim C7. For every URL that is empty, consists of white space only, or starts neither
  with \<^verbatim>\<open>http://\<close> nor with \<^verbatim>\<open>https://\<close>, \<open>readUrl\<close> fails with an error of the
  kind \<open>InvalidInput\<close> and leaves the world as it was: no request has been sent,
  whatever the HTTP client would have answered.
\<close>

theorem readUrl_rejects_invalid_url:
  assumes "url = [] \<or> list_all is_whitespace url
           \<or> (\<not> prefix (ascii ''http://'') url \<and> \<not> prefix (ascii ''https://'') url)"
  shows "(\<exists>e. fst (readUrl post key url withAllLinks w) = Inl e \<and> is_InvalidInput e)
         \<and> snd (readUrl post key url withAllLinks w) = w"
proof (cases "trim url = []")
  case True
  then show ?thesis
    by (simp add: readUrl_def is_InvalidInput_def)
next
  case False
  then have "\<not> list_all is_whitespace url" and "url \<noteq> []"
    using trim_whitespace_only [of url] by auto
  then have "\<not> startsWith url (ascii ''http://'') \<and> \<not> startsWith url (ascii ''https://'')"
    using assms by (simp add: startsWith_prefix)
  then show ?thesis
    using False by (simp add: readUrl_def is_InvalidInput_def)
qed

theorem readUrl_rejects_invalid_url_witness:
  "\<not> prefix (ascii ''http://'') (ascii ''ftp://x'')
   \<and> \<not> prefix (ascii ''https://'') (ascii ''ftp://x'')
   \<and> fst (readUrl (\<lambda>r. Inl () :: unit + unit ReadResponse) (ascii ''key'') (ascii ''ftp://x'') False
          \<lparr>sent = [], console = []\<rparr>)
     = Inl (JsError ''Invalid URL, only http and https URLs are supported'')
   \<and> snd (readUrl (\<lambda>r. Inl () :: unit + unit ReadResponse) (ascii ''key'') (ascii ''ftp://x'') False
          \<lparr>sent = [], console = []\<rparr>)
     = \<lparr>sent = [], console = []\<rparr>
   \<and> list_all is_whitespace (ascii ''   '')
   \<and> fst (readUrl (\<lambda>r. Inl () :: unit + unit ReadResponse) (ascii ''key'') (ascii ''   '') False
          \<lparr>sent = [], console = []\<rparr>)
     = Inl (JsError ''URL cannot be empty'')
   \<and> snd (readUrl (\<lambda>r. Inl () :: unit + unit ReadResponse) (ascii ''key'') (ascii ''   '') False
          \<lparr>sent = [], console = []\<rparr>)
     = \<lparr>sent = [], console = []\<rparr>"
proof -
  have ftp: "\<not> prefix (ascii ''http://'') (ascii ''ftp://x'') \<and> \<not> prefix (ascii ''https://'') (ascii ''ftp://x'')"
    by (simp add: ascii_def)
  have blank: "list_all is_whitespace (ascii ''   '')"
    by (simp add: ascii_def is_whitespace_def)
  have ftp_trim: "trim (ascii ''ftp://x'') \<noteq> []"
    by (simp add: trim_def ascii_def is_whitespace_def)
  note a = readUrl_rejects_invalid_url [of "ascii ''ftp://x''" "\<lambda>r. Inl () :: unit + unit ReadResponse"
      "ascii ''key''" False "\<lparr>sent = [], console = []\<rparr>"]
    and b = readUrl_rejects_invalid_url [of "ascii ''   ''" "\<lambda>r. Inl () :: unit + unit ReadResponse"
      "ascii ''key''" False "\<lparr>sent = [], console = []\<rparr>"]
  have "fst (readUrl (\<lambda>r. Inl () :: unit + unit ReadResponse) (ascii ''key'') (ascii ''ftp://x'') False
          \<lparr>sent = [], console = []\<rparr>)
     = Inl (JsError ''Invalid URL, only http and https URLs are supported'')"
    using a ftp ftp_trim by (simp add: readUrl_def startsWith_prefix)
  moreover have "fst (readUrl (\<lambda>r. Inl () :: unit + unit ReadResponse) (ascii ''key'') (ascii ''   '') False
          \<lparr>sent = [], console = []\<rparr>)
     = Inl (JsError ''URL cannot be empty'')"
    using b blank by (simp add: readUrl_def trim_whitespace_only)
  ultimately show ?thesis
    using a b ftp blank by simp
qed

text \<open>A URL that passes the validation does reach the client: one request is sent.\<close>

lemma readUrl_valid_url_sends_request:
  "fst (readUrl (\<lambda>r. Inl () :: unit + unit ReadResponse) (ascii ''key'') (ascii ''http://x'') False
          \<lparr>sent = [], console = []\<rparr>) = Inl (ClientError ())
   \<and> length (sent (snd (readUrl (\<lambda>r. Inl () :: unit + unit ReadResponse) (ascii ''key'') (ascii ''http://x'') False
          \<lparr>sent = [], console = []\<rparr>))) = 1"
  by (simp add: readUrl_def trim_def ascii_def is_whitespace_def startsWith_def Let_def)


section \<open>Resolving image paths\<close>

lemma data_uri_startsWith:
  "startsWith (ascii ''data:'' @ (if png then ascii ''image/png'' else ascii ''image/jpeg'')
                 @ ascii '';base64,'' @ rest) (ascii ''data:image/'')"
  by (simp add: startsWith_def ascii_def)

lemma resolveImagePath_passes_urls:
  "startsWith s (ascii ''data:image/'') \<or> startsWith s (ascii ''http://'')
     \<or> startsWith s (ascii ''https://'') \<Longrightarrow> resolveImagePath h s d = Inr s"
  by (simp add: resolveImagePath_def)

text \<open>
  Claim C10. On a fixed file system \<open>resolveImagePath\<close> is idempotent: for every
  string and base directory, resolving twice is resolving once (a throw of the first
  call is the throw of the composition), because what the function returns is either
  its input or a string that starts with \<^verbatim>\<open>data:image/\<close>, which it passes through.
\<close>

theorem resolveImagePath_idempotent:
  "(case resolveImagePath h s d of
      Inl e \<Rightarrow> Inl e
    | Inr r \<Rightarrow> resolveImagePath h r d) = resolveImagePath h s d
   \<and> (\<forall>r. resolveImagePath h s d = Inr r \<longrightarrow> r = s \<or> startsWith r (ascii ''data:image/''))"
proof -
  have "(r = s \<or> startsWith r (ascii ''data:image/'')) \<and> resolveImagePath h r d = Inr r"
    if r: "resolveImagePath h s d = Inr r" for r
  proof (cases "r = s")
    case True
    then show ?thesis using r by simp
  next
    case False
    then obtain b where "r = ascii ''data:''
        @ (if toLowerCase h (path_extname h (path_resolve h d s)) = ascii ''.png''
           then ascii ''image/png'' else ascii ''image/jpeg'')
        @ ascii '';base64,'' @ toBase64 h b"
      using r
      by (auto simp: resolveImagePath_def Let_def split: if_splits option.splits)
    then have "startsWith r (ascii ''data:image/'')"
      by (simp only: data_uri_startsWith)
    then show ?thesis
      by (simp add: resolveImagePath_passes_urls)
  qed
  then show ?thesis
    by (cases "resolveImagePath h s d") simp_all
qed

theorem resolveImagePath_idempotent_witness:
  "resolveImagePath sample_host (ascii ''cat.png'') (ascii ''data'')
     = Inr (ascii ''data:image/png;base64,AQID'')
   \<and> startsWith (ascii ''data:image/png;base64,AQID'') (ascii ''data:image/'')
   \<and> resolveImagePath sample_host (ascii ''data:image/png;base64,AQID'') (ascii ''data'')
     = Inr (ascii ''data:image/png;base64,AQID'')"
proof -
  have first: "resolveImagePath sample_host (ascii ''cat.png'') (ascii ''data'')
     = Inr (ascii ''data:image/png;base64,AQID'')"
    by (simp add: resolveImagePath_def sample_host_def startsWith_def ascii_def)
  note again = resolveImagePath_idempotent [where h = sample_host and s = "ascii ''cat.png''"
      and d = "ascii ''data''", THEN conjunct1, unfolded first sum.case]
  show ?thesis
    using again first by (simp add: startsWith_def ascii_def)
qed

lemma resolved_chunk_fails_iff:
  "isl (resolved_chunk h d c) \<longleftrightarrow> unreadable_asset h d c"
  by (simp add: resolved_chunk_def resolveImagePath_def unreadable_asset_def Let_def
      split: option.splits)

section \<open>Ingestion\<close>

lemma resolved_chunk_unreadable:
  "unreadable_asset h d c \<Longrightarrow> resolved_chunk h d c = Inl (ReadFailed (path_resolve h d c))"
  by (simp add: resolved_chunk_def resolveImagePath_def unreadable_asset_def Let_def)

lemma resolved_chunk_readable:
  assumes "\<not> unreadable_asset h d c"
  shows "resolved_chunk h d c = Inr (projr (resolved_chunk h d c))"
proof -
  have "\<not> isl (resolved_chunk h d c)"
    using assms by (simp add: resolved_chunk_fails_iff)
  then show ?thesis
    by (cases "resolved_chunk h d c") simp_all
qed

lemma deliver_halted: "thrown st \<noteq> None \<or> stopped st \<Longrightarrow> deliver h d st evs = st"
  by (cases evs) auto

text \<open>Once rejected, the promise stays rejected with the same error to the end.\<close>

lemma on_line_event_rejected:
  assumes "promise st = Rejected e" and "thrown st = None"
  shows "promise (on_event h d st (line_event l)) = Rejected e
         \<and> thrown (on_event h d st (line_event l)) = None"
proof (cases l)
  case (Row obj)
  then show ?thesis
    using assms by (cases "resolved_chunk h d (chunk obj)") (simp_all add: Let_def settle_def)
next
  case Malformed
  then show ?thesis
    using assms by (simp add: settle_def)
qed

lemma deliver_rejected:
  assumes "promise st = Rejected e" and "thrown st = None"
  shows "outcome_of (deliver h d st (map line_event ls @ [End])) = Failed e"
  using assms
proof (induction ls arbitrary: st)
  case Nil
  then show ?case
    by (simp add: outcome_of_def settle_def)
next
  case (Cons l ls)
  show ?case
  proof (cases "stopped st")
    case True
    then show ?thesis
      using Cons.prems by (simp add: outcome_of_def)
  next
    case False
    let ?st = "on_event h d st (line_event l)"
    have "promise ?st = Rejected e \<and> thrown ?st = None"
      using Cons.prems by (rule on_line_event_rejected)
    then have "outcome_of (deliver h d ?st (map line_event ls @ [End])) = Failed e"
      by (intro Cons.IH) simp_all
    then show ?thesis
      using False Cons.prems(2) by simp
  qed
qed

text \<open>The first line that is not sound decides the error of the call.\<close>

lemma deliver_first_error:
  assumes "promise st = Pending" and "thrown st = None" and "\<not> stopped st"
    and "first_error h d ls = Some e"
  shows "outcome_of (deliver h d st (map line_event ls @ [End])) = Failed e"
  using assms
proof (induction ls arbitrary: st)
  case Nil
  then show ?case by simp
next
  case (Cons l ls)
  let ?st = "on_event h d st (line_event l)"
  have step: "deliver h d st (map line_event (l # ls) @ [End])
                = deliver h d ?st (map line_event ls @ [End])"
    using Cons.prems(2,3) by simp
  show ?case
  proof (cases l)
    case Malformed
    then have "e = ParseFailed"
      using Cons.prems(4) by simp
    then have "promise ?st = Rejected e" and "thrown ?st = None"
      using Malformed Cons.prems(1,2) by (simp_all add: settle_def)
    then have "outcome_of (deliver h d ?st (map line_event ls @ [End])) = Failed e"
      by (rule deliver_rejected)
    then show ?thesis
      by (simp only: step)
  next
    case (Row obj)
    show ?thesis
    proof (cases "unreadable_asset h d (chunk obj)")
      case True
      then have e: "e = ReadFailed (path_resolve h d (chunk obj))"
        using Cons.prems(4) Row by simp
      have "resolved_chunk h d (chunk obj) = Inl e"
        unfolding e using True by (rule resolved_chunk_unreadable)
      then have "promise ?st = Rejected e" and "thrown ?st = None" and "stopped ?st"
        using Row Cons.prems(1,2) by (simp_all add: Let_def settle_def)
      then have "outcome_of (deliver h d ?st (map line_event ls @ [End])) = Failed e"
        by (simp add: deliver_halted outcome_of_def)
      then show ?thesis
        by (simp only: step)
    next
      case False
      then have rest: "first_error h d ls = Some e"
        using Cons.prems(4) Row by simp
      obtain c where c: "resolved_chunk h d (chunk obj) = Inr c"
        using False resolved_chunk_readable by blast
      have "promise ?st = Pending" and "thrown ?st = None" and "\<not> stopped ?st"
        using Row Cons.prems(1,2,3) by (simp_all add: Let_def c)
      then have "outcome_of (deliver h d ?st (map line_event ls @ [End])) = Failed e"
        using rest by (rule Cons.IH)
      then show ?thesis
        by (simp only: step)
    qed
  qed
qed

lemma deliver_rows_ok:
  assumes "thrown st = None" and "\<not> stopped st"
    and "\<forall>obj \<in> set rows. \<not> unreadable_asset h d (chunk obj)"
  shows "deliver h d st (map Data rows @ evs) =
           deliver h d
             (st\<lparr>embeddings := embeddings st @ map embedding rows,
                 chunks := chunks st @ map (\<lambda>obj. projr (resolved_chunk h d (chunk obj))) rows\<rparr>)
             evs"
  using assms
proof (induction rows arbitrary: st)
  case Nil
  then show ?case by simp
next
  case (Cons obj rows)
  have "\<not> unreadable_asset h d (chunk obj)"
    using Cons.prems(3) by simp
  then obtain c where c: "resolved_chunk h d (chunk obj) = Inr c"
    using resolved_chunk_readable by blast
  let ?st = "st\<lparr>embeddings := embeddings st @ [embedding obj], chunks := chunks st @ [c]\<rparr>"
  have step: "on_event h d st (Data obj) = ?st"
    by (simp add: c Let_def)
  have "deliver h d st (map Data (obj # rows) @ evs) = deliver h d ?st (map Data rows @ evs)"
    using Cons.prems(1,2) by (simp add: step del: on_event.simps)
  also have "\<dots> = deliver h d
             (?st\<lparr>embeddings := embeddings ?st @ map embedding rows,
                   chunks := chunks ?st @ map (\<lambda>obj. projr (resolved_chunk h d (chunk obj))) rows\<rparr>)
             evs"
    using Cons.prems by (intro Cons.IH) simp_all
  finally show ?case
    by (simp add: c)
qed

lemma line_event_Row: "line_event \<circ> Row = Data"
  by (rule ext) simp

lemma loadEmbeddings_rows:
  assumes "file_lines h p = Some (map Row rows)"
    and "\<forall>obj \<in> set rows. \<not> unreadable_asset h (path_dirname h p) (chunk obj)"
  shows "loadEmbeddings h p m =
           Returned \<lparr>embeddings = map embedding rows,
                     chunks = map (\<lambda>obj. projr (resolved_chunk h (path_dirname h p) (chunk obj))) rows\<rparr>"
proof -
  let ?init = "\<lparr>embeddings = [], chunks = [], promise = Pending, thrown = None,
                stopped = False\<rparr>"
  have "deliver h (path_dirname h p) ?init (map Data rows @ [End])
          = deliver h (path_dirname h p)
              (?init\<lparr>embeddings := embeddings ?init @ map embedding rows,
                      chunks := chunks ?init
                        @ map (\<lambda>obj. projr (resolved_chunk h (path_dirname h p) (chunk obj))) rows\<rparr>)
              [End]"
    using assms(2) by (intro deliver_rows_ok) simp_all
  then show ?thesis
    by (simp add: loadEmbeddings_def stream_events_def assms(1) line_event_Row
        outcome_of_def settle_def)
qed

lemma loadEmbeddings_first_error:
  assumes "file_lines h p = Some ls" and "first_error h (path_dirname h p) ls = Some e"
  shows "loadEmbeddings h p m = Failed e"
  using deliver_first_error [OF _ _ _ assms(2),
      of "\<lparr>embeddings = [], chunks = [], promise = Pending, thrown = None, stopped = False\<rparr>"]
  by (simp add: loadEmbeddings_def stream_events_def assms(1))

lemma loadEmbeddings_open_failure:
  "file_lines h p = None \<Longrightarrow> loadEmbeddings h p m = Threw (OpenFailed p)"
  by (simp add: loadEmbeddings_def stream_events_def outcome_of_def)

lemma first_error_None:
  "first_error h d ls = None \<Longrightarrow>
     \<exists>rows. ls = map Row rows \<and> (\<forall>obj \<in> set rows. \<not> unreadable_asset h d (chunk obj))"
proof (induction ls)
  case Nil
  then show ?case by simp
next
  case (Cons l ls)
  show ?case
  proof (cases l)
    case Malformed
    then show ?thesis using Cons.prems by simp
  next
    case (Row obj)
    then have ok: "\<not> unreadable_asset h d (chunk obj)" and "first_error h d ls = None"
      using Cons.prems by (simp_all split: if_splits)
    then obtain rows where "ls = map Row rows"
      and "\<forall>obj \<in> set rows. \<not> unreadable_asset h d (chunk obj)"
      using Cons.IH by blast
    then have "l # ls = map Row (obj # rows)
        \<and> (\<forall>obj \<in> set (obj # rows). \<not> unreadable_asset h d (chunk obj))"
      using Row ok by simp
    then show ?thesis by (rule exI)
  qed
qed

lemma first_error_Some:
  "first_error h d ls = Some e \<Longrightarrow>
     (e = ParseFailed \<and> Malformed \<in> set ls)
     \<or> (\<exists>obj. Row obj \<in> set ls \<and> unreadable_asset h d (chunk obj)
            \<and> e = ReadFailed (path_resolve h d (chunk obj)))"
proof (induction ls)
  case Nil
  then show ?case by simp
next
  case (Cons l ls)
  show ?case
  proof (cases l)
    case Malformed
    then show ?thesis using Cons.prems by simp
  next
    case (Row obj)
    show ?thesis
    proof (cases "unreadable_asset h d (chunk obj)")
      case True
      then show ?thesis using Cons.prems Row by auto
    next
      case False
      then have "first_error h d ls = Some e"
        using Cons.prems Row by simp
      then show ?thesis
        using Cons.IH by auto
    qed
  qed
qed

lemma first_error_unsound:
  "\<exists>l \<in> set ls. \<not> sound_line h d l \<Longrightarrow> \<exists>e. first_error h d ls = Some e"
proof (induction ls)
  case Nil
  then show ?case by simp
next
  case (Cons l ls)
  then show ?case
    by (cases l) auto
qed

text \<open>
  The two arrays of a result have the same length: a result is returned only when every
  \<^verbatim>\<open>data\<close> event has pushed one element on each.
\<close>

lemma loadEmbeddings_Returned_lengths:
  assumes "loadEmbeddings h p m = Returned res"
  shows "length (embeddings res) = length (chunks res)"
proof (cases "file_lines h p")
  case None
  then show ?thesis
    using assms by (simp add: loadEmbeddings_open_failure)
next
  case (Some ls)
  show ?thesis
  proof (cases "first_error h (path_dirname h p) ls")
    case None
    then obtain rows where "ls = map Row rows"
      and "\<forall>obj \<in> set rows. \<not> unreadable_asset h (path_dirname h p) (chunk obj)"
      using first_error_None by blast
    then have "loadEmbeddings h p m =
           Returned \<lparr>embeddings = map embedding rows,
                     chunks = map (\<lambda>obj. projr (resolved_chunk h (path_dirname h p) (chunk obj))) rows\<rparr>"
      using Some by (intro loadEmbeddings_rows) simp_all
    then show ?thesis
      using assms by auto
  next
    case (Some e)
    then have "loadEmbeddings h p m = Failed e"
      using \<open>file_lines h p = Some ls\<close> by (intro loadEmbeddings_first_error)
    then show ?thesis
      using assms by simp
  qed
qed

section \<open>What loadEmbeddings returns\<close>

lemmas sample_eval =
  loadEmbeddings_def stream_events_def sample_host_def sample_lines_def outcome_of_def
  settle_def resolved_chunk_def resolveImagePath_def isImagePath_def startsWith_def
  endsWith_def ascii_def Let_def

text \<open>
  Claim C3, as amended. For every input file of \<open>N\<close> lines that all parse to records,
  and provided that every local image a chunk refers to can be read when it exists,
  \<open>loadEmbeddings\<close> returns an embeddings sequence and a chunks sequence of length
  \<open>N\<close> each, in the order of the lines, with every embedding vector unchanged and
  every chunk as the \<^verbatim>\<open>data\<close> handler resolves it. Whenever \<open>loadEmbeddings\<close>
  returns, for any file, the two sequences have the same length.
\<close>

theorem loadEmbeddings_valid_lines:
  "(file_lines h filePath = Some (map Row rows)
    \<and> (\<forall>obj \<in> set rows. \<not> unreadable_asset h (path_dirname h filePath) (chunk obj))
    \<longrightarrow> (\<exists>res. loadEmbeddings h filePath model = Returned res
           \<and> length (embeddings res) = length rows
           \<and> length (chunks res) = length rows
           \<and> embeddings res = map embedding rows
           \<and> (\<forall>i < length rows.
                 resolved_chunk h (path_dirname h filePath) (chunk (rows ! i))
                   = Inr (chunks res ! i))))
   \<and> (\<forall>res. loadEmbeddings h filePath model = Returned res
          \<longrightarrow> length (embeddings res) = length (chunks res))"
proof (intro conjI impI allI)
  fix res
  assume "loadEmbeddings h filePath model = Returned res"
  then show "length (embeddings res) = length (chunks res)"
    by (rule loadEmbeddings_Returned_lengths)
next
  assume assms: "file_lines h filePath = Some (map Row rows)
    \<and> (\<forall>obj \<in> set rows. \<not> unreadable_asset h (path_dirname h filePath) (chunk obj))"
  let ?d = "path_dirname h filePath"
  let ?res = "\<lparr>embeddings = map embedding rows,
               chunks = map (\<lambda>obj. projr (resolved_chunk h ?d (chunk obj))) rows\<rparr>"
  have "loadEmbeddings h filePath model = Returned ?res"
    using assms by (intro loadEmbeddings_rows) simp_all
  moreover have "resolved_chunk h ?d (chunk (rows ! i)) = Inr (chunks ?res ! i)"
    if "i < length rows" for i
  proof -
    have "\<not> isl (resolved_chunk h ?d (chunk (rows ! i)))"
      using that assms by (simp add: resolved_chunk_fails_iff)
    then show ?thesis
      using that by (cases "resolved_chunk h ?d (chunk (rows ! i))") simp_all
  qed
  ultimately show "\<exists>res. loadEmbeddings h filePath model = Returned res
           \<and> length (embeddings res) = length rows
           \<and> length (chunks res) = length rows
           \<and> embeddings res = map embedding rows
           \<and> (\<forall>i < length rows.
                 resolved_chunk h (path_dirname h filePath) (chunk (rows ! i))
                   = Inr (chunks res ! i))"
    by simp
qed

lemma sample_cat_lines:
  "file_lines sample_host (ascii ''data/cat.jsonl'') =
     Some (map Row [\<lparr>embedding = [Num 1, Num 0], chunk = ascii ''hello''\<rparr>,
                    \<lparr>embedding = [Num 0, Num 1], chunk = ascii ''cat.png''\<rparr>,
                    \<lparr>embedding = [Num 1, Num 1], chunk = ascii ''https://example.com/x.png''\<rparr>])"
  by (simp add: sample_host_def sample_lines_def)

lemma sample_cat_result:
  "loadEmbeddings sample_host (ascii ''data/cat.jsonl'') (ascii ''jina-embeddings-v3'') =
     Returned \<lparr>embeddings = [[Num 1, Num 0], [Num 0, Num 1], [Num 1, Num 1]],
               chunks = [ascii ''hello'', ascii ''data:image/png;base64,AQID'',
                         ascii ''https://example.com/x.png'']\<rparr>"
  by (simp add: sample_eval)

theorem loadEmbeddings_valid_lines_witness:
  "\<exists>res. loadEmbeddings sample_host (ascii ''data/cat.jsonl'') (ascii ''jina-embeddings-v3'')
            = Returned res
         \<and> length (embeddings res) = 3 \<and> length (chunks res) = 3
         \<and> embeddings res = [[Num 1, Num 0], [Num 0, Num 1], [Num 1, Num 1]]
         \<and> length (embeddings res) = length (chunks res)"
proof -
  have "\<forall>obj \<in> set [\<lparr>embedding = [Num 1, Num 0], chunk = ascii ''hello''\<rparr>,
                    \<lparr>embedding = [Num 0, Num 1], chunk = ascii ''cat.png''\<rparr>,
                    \<lparr>embedding = [Num 1, Num 1], chunk = ascii ''https://example.com/x.png''\<rparr>].
          \<not> unreadable_asset sample_host
               (path_dirname sample_host (ascii ''data/cat.jsonl'')) (chunk obj)"
    by (simp add: unreadable_asset_def sample_host_def isImagePath_def startsWith_def
        endsWith_def ascii_def)
  with sample_cat_lines
  have "\<exists>res. loadEmbeddings sample_host (ascii ''data/cat.jsonl'') (ascii ''jina-embeddings-v3'')
            = Returned res
         \<and> length (embeddings res) = 3 \<and> length (chunks res) = 3
         \<and> embeddings res = [[Num 1, Num 0], [Num 0, Num 1], [Num 1, Num 1]]"
    using loadEmbeddings_valid_lines [of sample_host "ascii ''data/cat.jsonl''" _
        "ascii ''jina-embeddings-v3''", THEN conjunct1]
    by fastforce
  then show ?thesis
    by auto
qed

text \<open>
  Claim C3 as stated fails on a file of one valid line whose chunk names an image that
  exists and cannot be read: the read throws inside the \<^verbatim>\<open>data\<close> handler, the promise is
  rejected and no sequences are returned.
\<close>

theorem loadEmbeddings_unreadable_asset_counterexample:
  "file_lines sample_host (ascii ''data/locked.jsonl'')
     = Some [Row \<lparr>embedding = [Num 1], chunk = ascii ''locked.png''\<rparr>]
   \<and> existsSync sample_host (ascii ''data/locked.png'')
   \<and> readFileSync sample_host (ascii ''data/locked.png'') = None
   \<and> loadEmbeddings sample_host (ascii ''data/locked.jsonl'') (ascii ''jina-embeddings-v3'')
     = Failed (ReadFailed (ascii ''data/locked.png''))"
  by (simp add: sample_eval)

text \<open>
  Claim C6, as amended. \<open>loadEmbeddings\<close> fails, surfacing an error to its caller with
  no partial results, whenever a line fails to parse or a chunk refers to a local image
  that exists and cannot be read: the promise is rejected with the error of the first
  such line, an error of the kind \<open>ParseFailure\<close> for a line that does not parse and of
  the kind \<open>FileAccessFailure\<close> for an image that cannot be read. An image that is
  missing is no failure: a file whose lines all parse and none of whose chunks refers to
  a local image that exists is loaded, with every chunk as it is in the file.
\<close>

theorem loadEmbeddings_fails:
  "(\<forall>ls. file_lines h filePath = Some ls
          \<and> (Malformed \<in> set ls
              \<or> (\<exists>obj. Row obj \<in> set ls
                    \<and> unreadable_asset h (path_dirname h filePath) (chunk obj)))
          \<longrightarrow> (\<exists>e. loadEmbeddings h filePath model = Failed e
                 \<and> first_error h (path_dirname h filePath) ls = Some e
                 \<and> ((kind_of e = ParseFailure \<and> Malformed \<in> set ls)
                     \<or> (kind_of e = FileAccessFailure
                         \<and> (\<exists>obj. Row obj \<in> set ls
                               \<and> unreadable_asset h (path_dirname h filePath) (chunk obj)
                               \<and> e = ReadFailed
                                     (path_resolve h (path_dirname h filePath) (chunk obj)))))))
   \<and> (\<forall>rows. file_lines h filePath = Some (map Row rows)
          \<and> (\<forall>obj \<in> set rows. \<not> local_image h (path_dirname h filePath) (chunk obj))
          \<longrightarrow> loadEmbeddings h filePath model
                = Returned \<lparr>embeddings = map embedding rows, chunks = map chunk rows\<rparr>)"
proof (intro conjI allI impI)
  fix ls
  let ?d = "path_dirname h filePath"
  assume a: "file_lines h filePath = Some ls
          \<and> (Malformed \<in> set ls
              \<or> (\<exists>obj. Row obj \<in> set ls \<and> unreadable_asset h ?d (chunk obj)))"
  have "\<exists>l \<in> set ls. \<not> sound_line h ?d l"
  proof (cases "Malformed \<in> set ls")
    case True
    then show ?thesis by (rule bexI [rotated]) simp
  next
    case False
    then obtain obj where "Row obj \<in> set ls" and "unreadable_asset h ?d (chunk obj)"
      using a by blast
    then show ?thesis by (intro bexI [of _ "Row obj"]) simp_all
  qed
  then obtain e where e: "first_error h ?d ls = Some e"
    using first_error_unsound by blast
  then have "loadEmbeddings h filePath model = Failed e"
    using a by (intro loadEmbeddings_first_error) simp_all
  moreover have "(kind_of e = ParseFailure \<and> Malformed \<in> set ls)
      \<or> (kind_of e = FileAccessFailure
          \<and> (\<exists>obj. Row obj \<in> set ls \<and> unreadable_asset h ?d (chunk obj)
                \<and> e = ReadFailed (path_resolve h ?d (chunk obj))))"
    using first_error_Some [OF e] by auto
  ultimately show "\<exists>e. loadEmbeddings h filePath model = Failed e
                 \<and> first_error h ?d ls = Some e
                 \<and> ((kind_of e = ParseFailure \<and> Malformed \<in> set ls)
                     \<or> (kind_of e = FileAccessFailure
                         \<and> (\<exists>obj. Row obj \<in> set ls \<and> unreadable_asset h ?d (chunk obj)
                               \<and> e = ReadFailed (path_resolve h ?d (chunk obj)))))"
    using e by blast
next
  fix rows
  let ?d = "path_dirname h filePath"
  assume a: "file_lines h filePath = Some (map Row rows)
          \<and> (\<forall>obj \<in> set rows. \<not> local_image h ?d (chunk obj))"
  have same: "projr (resolved_chunk h ?d (chunk obj)) = chunk obj" if "obj \<in> set rows" for obj
  proof -
    have "\<not> local_image h ?d (chunk obj)"
      using a that by blast
    then show ?thesis
      by (auto simp: local_image_def resolved_chunk_def resolveImagePath_def Let_def)
  qed
  have "\<forall>obj \<in> set rows. \<not> unreadable_asset h ?d (chunk obj)"
    using a by (auto simp: local_image_def unreadable_asset_def)
  then have "loadEmbeddings h filePath model =
           Returned \<lparr>embeddings = map embedding rows,
                     chunks = map (\<lambda>obj. projr (resolved_chunk h ?d (chunk obj))) rows\<rparr>"
    using a by (intro loadEmbeddings_rows) simp_all
  moreover have "map (\<lambda>obj. projr (resolved_chunk h ?d (chunk obj))) rows = map chunk rows"
    using same by (intro map_cong) simp_all
  ultimately show "loadEmbeddings h filePath model
                = Returned \<lparr>embeddings = map embedding rows, chunks = map chunk rows\<rparr>"
    by simp
qed

theorem loadEmbeddings_fails_witness:
  "file_lines sample_host (ascii ''data/broken.jsonl'')
       = Some [Row \<lparr>embedding = [Num 1], chunk = ascii ''hello''\<rparr>, Malformed]
   \<and> loadEmbeddings sample_host (ascii ''data/broken.jsonl'') (ascii ''jina-embeddings-v3'')
       = Failed ParseFailed
   \<and> kind_of ParseFailed = ParseFailure
   \<and> file_lines sample_host (ascii ''data/locked.jsonl'')
       = Some [Row \<lparr>embedding = [Num 1], chunk = ascii ''locked.png''\<rparr>]
   \<and> unreadable_asset sample_host (path_dirname sample_host (ascii ''data/locked.jsonl''))
        (ascii ''locked.png'')
   \<and> loadEmbeddings sample_host (ascii ''data/locked.jsonl'') (ascii ''jina-embeddings-v3'')
       = Failed (ReadFailed (ascii ''data/locked.png''))
   \<and> kind_of (ReadFailed (ascii ''data/locked.png'')) = FileAccessFailure
   \<and> file_lines sample_host (ascii ''data/missing.jsonl'')
       = Some (map Row [\<lparr>embedding = [Num 1], chunk = ascii ''missing.jpg''\<rparr>])
   \<and> \<not> local_image sample_host (path_dirname sample_host (ascii ''data/missing.jsonl''))
          (ascii ''missing.jpg'')
   \<and> loadEmbeddings sample_host (ascii ''data/missing.jsonl'') (ascii ''jina-embeddings-v3'')
       = Returned \<lparr>embeddings = [[Num 1]], chunks = [ascii ''missing.jpg'']\<rparr>"
proof -
  let ?m = "ascii ''jina-embeddings-v3''"
  have broken: "file_lines sample_host (ascii ''data/broken.jsonl'')
       = Some [Row \<lparr>embedding = [Num 1], chunk = ascii ''hello''\<rparr>, Malformed]"
    by (simp add: sample_host_def sample_lines_def ascii_def)
  have locked: "file_lines sample_host (ascii ''data/locked.jsonl'')
       = Some [Row \<lparr>embedding = [Num 1], chunk = ascii ''locked.png''\<rparr>]"
    by (simp add: sample_host_def sample_lines_def ascii_def)
  have missing: "file_lines sample_host (ascii ''data/missing.jsonl'')
       = Some (map Row [\<lparr>embedding = [Num 1], chunk = ascii ''missing.jpg''\<rparr>])"
    by (simp add: sample_host_def sample_lines_def ascii_def)
  have asset: "unreadable_asset sample_host (path_dirname sample_host (ascii ''data/locked.jsonl''))
        (ascii ''locked.png'')"
    by (simp add: unreadable_asset_def sample_host_def isImagePath_def startsWith_def
        endsWith_def ascii_def)
  have absent: "\<not> local_image sample_host (path_dirname sample_host (ascii ''data/missing.jsonl''))
          (ascii ''missing.jpg'')"
    by (simp add: local_image_def sample_host_def isImagePath_def startsWith_def
        endsWith_def ascii_def)
  note f = loadEmbeddings_fails [of sample_host _ ?m]
  have "\<exists>e. loadEmbeddings sample_host (ascii ''data/broken.jsonl'') ?m = Failed e
          \<and> first_error sample_host (path_dirname sample_host (ascii ''data/broken.jsonl''))
               [Row \<lparr>embedding = [Num 1], chunk = ascii ''hello''\<rparr>, Malformed] = Some e"
    using f [of "ascii ''data/broken.jsonl''", THEN conjunct1, rule_format,
        of "[Row \<lparr>embedding = [Num 1], chunk = ascii ''hello''\<rparr>, Malformed]"] broken
    by auto
  moreover have "first_error sample_host (path_dirname sample_host (ascii ''data/broken.jsonl''))
      [Row \<lparr>embedding = [Num 1], chunk = ascii ''hello''\<rparr>, Malformed] = Some ParseFailed"
    by (simp add: unreadable_asset_def isImagePath_def startsWith_def endsWith_def ascii_def)
  ultimately have r1: "loadEmbeddings sample_host (ascii ''data/broken.jsonl'') ?m
      = Failed ParseFailed"
    by auto
  have "\<exists>e. loadEmbeddings sample_host (ascii ''data/locked.jsonl'') ?m = Failed e
          \<and> first_error sample_host (path_dirname sample_host (ascii ''data/locked.jsonl''))
               [Row \<lparr>embedding = [Num 1], chunk = ascii ''locked.png''\<rparr>] = Some e"
    using f [of "ascii ''data/locked.jsonl''", THEN conjunct1, rule_format,
        of "[Row \<lparr>embedding = [Num 1], chunk = ascii ''locked.png''\<rparr>]"] locked asset
    by auto
  moreover have "first_error sample_host (path_dirname sample_host (ascii ''data/locked.jsonl''))
      [Row \<lparr>embedding = [Num 1], chunk = ascii ''locked.png''\<rparr>]
      = Some (ReadFailed (ascii ''data/locked.png''))"
    using asset by (simp add: sample_host_def ascii_def)
  ultimately have r2: "loadEmbeddings sample_host (ascii ''data/locked.jsonl'') ?m
      = Failed (ReadFailed (ascii ''data/locked.png''))"
    by auto
  have r3: "loadEmbeddings sample_host (ascii ''data/missing.jsonl'') ?m
       = Returned \<lparr>embeddings = [[Num 1]], chunks = [ascii ''missing.jpg'']\<rparr>"
    using f [of "ascii ''data/missing.jsonl''", THEN conjunct2, rule_format,
        of "[\<lparr>embedding = [Num 1], chunk = ascii ''missing.jpg''\<rparr>]"] missing absent
    by simp
  show ?thesis
    using broken locked missing asset absent r1 r2 r3 by simp
qed

text \<open>
  Claim C6 as stated fails twice. A chunk whose local image is missing is no failure: the
  guard on \<^verbatim>\<open>existsSync\<close> passes the chunk through and \<open>loadEmbeddings\<close> returns. And
  the error of a line that does not parse is of the kind \<open>ParseFailure\<close>, not
  \<open>FileAccessFailure\<close>.
\<close>

theorem loadEmbeddings_missing_asset_counterexample:
  "isImagePath (ascii ''missing.jpg'')
   \<and> \<not> existsSync sample_host (ascii ''data/missing.jpg'')
   \<and> loadEmbeddings sample_host (ascii ''data/missing.jsonl'') (ascii ''jina-embeddings-v3'')
       = Returned \<lparr>embeddings = [[Num 1]], chunks = [ascii ''missing.jpg'']\<rparr>
   \<and> loadEmbeddings sample_host (ascii ''data/broken.jsonl'') (ascii ''jina-embeddings-v3'')
       = Failed ParseFailed
   \<and> kind_of ParseFailed \<noteq> FileAccessFailure"
proof -
  have "loadEmbeddings sample_host (ascii ''data/missing.jsonl'') (ascii ''jina-embeddings-v3'')
       = Returned \<lparr>embeddings = [[Num 1]], chunks = [ascii ''missing.jpg'']\<rparr>"
    by (simp add: sample_eval)
  moreover have "isImagePath (ascii ''missing.jpg'')"
    by (simp add: isImagePath_def endsWith_def ascii_def)
  moreover have "\<not> existsSync sample_host (ascii ''data/missing.jpg'')"
    by (simp add: sample_host_def ascii_def)
  moreover have "loadEmbeddings sample_host (ascii ''data/broken.jsonl'')
      (ascii ''jina-embeddings-v3'') = Failed ParseFailed"
    by (simp add: sample_eval)
  ultimately show ?thesis by simp
qed

text \<open>
  Claim C9, as amended. During the ingestion of a file whose lines all parse and in which
  every local image that a chunk refers to can be read when it exists, every chunk that
  is classified as an image reference, is neither a data URI nor an http(s) URL, and
  whose file exists when resolved against the directory of the input file, is rewritten
  to a base64 data URI of the file's content, of MIME type \<^verbatim>\<open>image/png\<close> when the
  lower-cased extension of the resolved path is \<^verbatim>\<open>.png\<close> and \<^verbatim>\<open>image/jpeg\<close> otherwise.
  Every other chunk is passed through unchanged: one that is not an image reference, one
  that is a data URI or an http(s) URL already, and one whose local file does not exist.
\<close>

theorem loadEmbeddings_chunks:
  "file_lines h filePath = Some (map Row rows)
   \<and> (\<forall>obj \<in> set rows. \<not> unreadable_asset h (path_dirname h filePath) (chunk obj))
   \<longrightarrow> (\<exists>res. loadEmbeddings h filePath model = Returned res
          \<and> (\<forall>i < length rows.
                (local_image h (path_dirname h filePath) (chunk (rows ! i))
                 \<longrightarrow> (\<exists>imageBuffer.
                        readFileSync h (path_resolve h (path_dirname h filePath) (chunk (rows ! i)))
                          = Some imageBuffer
                        \<and> chunks res ! i =
                            ascii ''data:''
                            @ (if toLowerCase h (path_extname h
                                     (path_resolve h (path_dirname h filePath) (chunk (rows ! i))))
                                  = ascii ''.png''
                               then ascii ''image/png'' else ascii ''image/jpeg'')
                            @ ascii '';base64,'' @ toBase64 h imageBuffer))
                \<and> (\<not> local_image h (path_dirname h filePath) (chunk (rows ! i))
                     \<longrightarrow> chunks res ! i = chunk (rows ! i))))"
proof
  let ?d = "path_dirname h filePath"
  let ?res = "\<lparr>embeddings = map embedding rows,
               chunks = map (\<lambda>obj. projr (resolved_chunk h ?d (chunk obj))) rows\<rparr>"
  assume a: "file_lines h filePath = Some (map Row rows)
   \<and> (\<forall>obj \<in> set rows. \<not> unreadable_asset h ?d (chunk obj))"
  then have res: "loadEmbeddings h filePath model = Returned ?res"
    by (intro loadEmbeddings_rows) simp_all
  have "(local_image h ?d (chunk (rows ! i))
          \<longrightarrow> (\<exists>imageBuffer.
                 readFileSync h (path_resolve h ?d (chunk (rows ! i))) = Some imageBuffer
                 \<and> chunks ?res ! i =
                     ascii ''data:''
                     @ (if toLowerCase h (path_extname h (path_resolve h ?d (chunk (rows ! i))))
                           = ascii ''.png''
                        then ascii ''image/png'' else ascii ''image/jpeg'')
                     @ ascii '';base64,'' @ toBase64 h imageBuffer))
         \<and> (\<not> local_image h ?d (chunk (rows ! i)) \<longrightarrow> chunks ?res ! i = chunk (rows ! i))"
    if i: "i < length rows" for i
  proof -
    have cell: "chunks ?res ! i = projr (resolved_chunk h ?d (chunk (rows ! i)))"
      using i by simp
    have "\<not> unreadable_asset h ?d (chunk (rows ! i))"
      using a i by simp
    then show ?thesis
      unfolding cell
      by (auto simp: local_image_def unreadable_asset_def resolved_chunk_def
          resolveImagePath_def Let_def split: option.splits)
  qed
  with res show "\<exists>res. loadEmbeddings h filePath model = Returned res
          \<and> (\<forall>i < length rows.
                (local_image h ?d (chunk (rows ! i))
                 \<longrightarrow> (\<exists>imageBuffer.
                        readFileSync h (path_resolve h ?d (chunk (rows ! i))) = Some imageBuffer
                        \<and> chunks res ! i =
                            ascii ''data:''
                            @ (if toLowerCase h (path_extname h
                                     (path_resolve h ?d (chunk (rows ! i)))) = ascii ''.png''
                               then ascii ''image/png'' else ascii ''image/jpeg'')
                            @ ascii '';base64,'' @ toBase64 h imageBuffer))
                \<and> (\<not> local_image h ?d (chunk (rows ! i))
                     \<longrightarrow> chunks res ! i = chunk (rows ! i)))"
    by blast
qed

theorem loadEmbeddings_chunks_witness:
  "loadEmbeddings sample_host (ascii ''data/cat.jsonl'') (ascii ''jina-embeddings-v3'') =
     Returned \<lparr>embeddings = [[Num 1, Num 0], [Num 0, Num 1], [Num 1, Num 1]],
               chunks = [ascii ''hello'', ascii ''data:image/png;base64,AQID'',
                         ascii ''https://example.com/x.png'']\<rparr>
   \<and> local_image sample_host (path_dirname sample_host (ascii ''data/cat.jsonl''))
        (ascii ''cat.png'')
   \<and> readFileSync sample_host (ascii ''data/cat.png'') = Some [1, 2, 3]
   \<and> ascii ''data:image/png;base64,AQID''
       = ascii ''data:'' @ ascii ''image/png'' @ ascii '';base64,'' @ toBase64 sample_host [1, 2, 3]
   \<and> \<not> local_image sample_host (path_dirname sample_host (ascii ''data/cat.jsonl''))
          (ascii ''hello'')
   \<and> \<not> local_image sample_host (path_dirname sample_host (ascii ''data/cat.jsonl''))
          (ascii ''https://example.com/x.png'')"
proof -
  let ?rows = "[\<lparr>embedding = [Num 1, Num 0], chunk = ascii ''hello''\<rparr>,
                \<lparr>embedding = [Num 0, Num 1], chunk = ascii ''cat.png''\<rparr>,
                \<lparr>embedding = [Num 1, Num 1], chunk = ascii ''https://example.com/x.png''\<rparr>]"
  have readable: "\<forall>obj \<in> set ?rows.
          \<not> unreadable_asset sample_host
               (path_dirname sample_host (ascii ''data/cat.jsonl'')) (chunk obj)"
    by (simp add: unreadable_asset_def sample_host_def isImagePath_def startsWith_def
        endsWith_def ascii_def)
  obtain res where res: "loadEmbeddings sample_host (ascii ''data/cat.jsonl'')
        (ascii ''jina-embeddings-v3'') = Returned res"
    using loadEmbeddings_chunks [of sample_host "ascii ''data/cat.jsonl''" ?rows
        "ascii ''jina-embeddings-v3''"] sample_cat_lines readable
    by blast
  have locals: "local_image sample_host (path_dirname sample_host (ascii ''data/cat.jsonl''))
        (ascii ''cat.png'')"
    "\<not> local_image sample_host (path_dirname sample_host (ascii ''data/cat.jsonl''))
          (ascii ''hello'')"
    "\<not> local_image sample_host (path_dirname sample_host (ascii ''data/cat.jsonl''))
          (ascii ''https://example.com/x.png'')"
    by (simp_all add: local_image_def sample_host_def isImagePath_def startsWith_def
        endsWith_def ascii_def)
  have "readFileSync sample_host (ascii ''data/cat.png'') = Some [1, 2, 3]"
    and "ascii ''data:image/png;base64,AQID''
       = ascii ''data:'' @ ascii ''image/png'' @ ascii '';base64,'' @ toBase64 sample_host [1, 2, 3]"
    by (simp_all add: sample_host_def ascii_def)
  then show ?thesis
    using res sample_cat_result locals by simp
qed

text \<open>
  Claim C9 as stated fails on the chunk \<^verbatim>\<open>gone.png\<close>, an image reference that is a local
  relative path: its file does not exist, and the chunk is passed through as it is, not
  rewritten to a data URI. It fails as well on the chunk \<^verbatim>\<open>locked.png\<close>, whose file
  exists and cannot be read: resolving it throws, and nothing is rewritten.
\<close>

theorem loadEmbeddings_missing_image_counterexample:
  "isImagePath (ascii ''gone.png'')
   \<and> \<not> startsWith (ascii ''gone.png'') (ascii ''data:image/'')
   \<and> \<not> startsWith (ascii ''gone.png'') (ascii ''http://'')
   \<and> \<not> startsWith (ascii ''gone.png'') (ascii ''https://'')
   \<and> loadEmbeddings sample_host (ascii ''data/gone.jsonl'') (ascii ''jina-embeddings-v3'')
       = Returned \<lparr>embeddings = [[Num 2]], chunks = [ascii ''gone.png'']\<rparr>
   \<and> local_image sample_host (ascii ''data'') (ascii ''locked.png'')
   \<and> resolved_chunk sample_host (ascii ''data'') (ascii ''locked.png'')
       = Inl (ReadFailed (ascii ''data/locked.png''))"
  by (simp add: sample_eval local_image_def)

end
